theory Spec2Isabelle
  imports Complex_Main "HOL-Library.Word" "HOL-Library.Sublist" "HOL-Library.Log_Nat"
begin

text \<open>
  The book reader turns the pages of a book into speech: the text of a page is cut into
  chunks within the size limit of a request, each chunk is synthesised remotely, the audio
  of a page becomes one segment of a playlist, and a playback engine plays the segments.
  The theory embeds the chunker and the generation pipeline of \<^verbatim>\<open>AudioController\<close>, the
  audio helpers of \<^verbatim>\<open>audioUtils.ts\<close> and the playback engine of \<^verbatim>\<open>App.tsx\<close>, and proves
  properties of them.
\<close>

section \<open>JavaScript strings\<close>

text \<open>
  A JavaScript string is a sequence of UTF-16 code units; \<^verbatim>\<open>length\<close>, \<^verbatim>\<open>substring\<close>
  and the regular expression engine (without the \<^verbatim>\<open>u\<close> flag) all count code units.
\<close>

type_synonym code_unit = "16 word"
type_synonym jstring = "code_unit list"

text \<open>
  The characters matched by \<^verbatim>\<open>\s\<close> and removed by \<^verbatim>\<open>String.prototype.trim\<close>
  (ECMAScript WhiteSpace and LineTerminator).
\<close>

definition isWhitespace :: "code_unit \<Rightarrow> bool" where
  "isWhitespace c \<longleftrightarrow>
     c \<in> {0x9, 0xA, 0xB, 0xC, 0xD, 0x20, 0xA0, 0x1680, 0x2028, 0x2029, 0x202F, 0x205F,
          0x3000, 0xFEFF}
     \<or> (0x2000 \<le> c \<and> c \<le> 0x200A)"

text \<open>The character class \<^verbatim>\<open>[.!?\n\r]\<close> of the sentence separator.\<close>

definition isTerminator :: "code_unit \<Rightarrow> bool" where
  "isTerminator c \<longleftrightarrow> c \<in> {0x2E, 0x21, 0x3F, 0xA, 0xD}"

text \<open>An ASCII literal as a JavaScript string.\<close>

definition utf16 :: "string \<Rightarrow> jstring" where
  "utf16 s = map (\<lambda>c. word_of_nat (of_char c)) s"

definition trim :: "jstring \<Rightarrow> jstring" where
  "trim s = rev (dropWhile isWhitespace (rev (dropWhile isWhitespace s)))"

text \<open>
  \<^verbatim>\<open>s.substring(i, j)\<close>: both indices are clamped to the length and swapped when
  \<^verbatim>\<open>i > j\<close>.
\<close>

definition substring :: "jstring \<Rightarrow> nat \<Rightarrow> nat \<Rightarrow> jstring" where
  "substring s i j =
     (let a = min i (length s); b = min j (length s)
      in take (max a b - min a b) (drop (min a b) s))"

section \<open>Chunker (AudioController: getSentencesFromText, calculateChunks)\<close>

text \<open>
  \<^verbatim>\<open>text.split(/(?<=[.!?\n\r]+)\s*/)\<close>. The separator matches at position \<open>q\<close> when the
  code unit before \<open>q\<close> is a terminator, and then consumes the longest run of whitespace
  from \<open>q\<close>; \<open>matchSeparator\<close> returns the end of the match.
\<close>

definition matchSeparator :: "jstring \<Rightarrow> nat \<Rightarrow> nat option" where
  "matchSeparator S q =
     (if 0 < q \<and> isTerminator (S ! (q - 1))
      then Some (q + length (takeWhile isWhitespace (drop q S)))
      else None)"

text \<open>
  The loop of \<^verbatim>\<open>RegExp.prototype[Symbol.split]\<close> on a non-empty string: \<open>p\<close> is the end of
  the last separator, \<open>q\<close> the position tried next. An empty match at \<open>p\<close> is skipped; a
  match is never tried at the end of the string.
\<close>

function splitLoop :: "jstring \<Rightarrow> nat \<Rightarrow> nat \<Rightarrow> jstring list" where
  "splitLoop S p q =
     (if q < length S then
        (case matchSeparator S q of
           None \<Rightarrow> splitLoop S p (q + 1)
         | Some e \<Rightarrow>
             if e = p then splitLoop S p (q + 1)
             else substring S p q # splitLoop S (min e (length S)) (min e (length S)))
      else [substring S p (length S)])"
  by pat_completeness auto
termination
proof (relation "measure (\<lambda>(S, p, q). 2 * (length S - q) + (if p \<noteq> q then 1 else 0))")
  show "wf (measure (\<lambda>(S, p, q). 2 * (length S - q) + (if p \<noteq> q then 1 else 0)))"
    by simp
next
  fix S :: jstring and p q :: nat
  assume "q < length S"
  then show "((S, p, q + 1), (S, p, q))
      \<in> measure (\<lambda>(S, p, q). 2 * (length S - q) + (if p \<noteq> q then 1 else 0))"
    by simp arith
next
  fix S :: jstring and p q :: nat
  assume "q < length S"
  then show "((S, p, q + 1), (S, p, q))
      \<in> measure (\<lambda>(S, p, q). 2 * (length S - q) + (if p \<noteq> q then 1 else 0))"
    by simp arith
next
  fix S :: jstring and p q e :: nat
  assume q: "q < length S" and m: "matchSeparator S q = Some e" and e: "e \<noteq> p"
  from m have "q \<le> e"
    by (auto simp: matchSeparator_def split: if_splits)
  with q e show "((S, min e (length S), min e (length S)), (S, p, q))
      \<in> measure (\<lambda>(S, p, q). 2 * (length S - q) + (if p \<noteq> q then 1 else 0))"
    by (cases "e = q") (auto simp: min_def)
qed

declare splitLoop.simps [simp del]

definition getSentencesFromText :: "jstring \<Rightarrow> jstring list" where
  "getSentencesFromText text =
     (if text = [] \<or> trim text = [] then []
      else filter (\<lambda>s. s \<noteq> [] \<and> 0 < length (trim s)) (splitLoop text 0 0))"

definition MAX_CHARS_PER_REQUEST :: nat where
  "MAX_CHARS_PER_REQUEST = 4500"

text \<open>
  The inner loop \<^verbatim>\<open>for (let i = 0; i < sentence.length; i += MAX) push(substring(i, i + MAX))\<close>.
  The budget is the positive constant 4500 in the source and a parameter \<open>m\<close> here; with a
  budget of 0 the source's loop would not advance, and the model stops instead, so every
  statement about the chunker below is for a positive budget.
\<close>

function hardSplit :: "nat \<Rightarrow> jstring \<Rightarrow> nat \<Rightarrow> jstring list" where
  "hardSplit m sentence i =
     (if i < length sentence \<and> 0 < m
      then substring sentence i (i + m) # hardSplit m sentence (i + m)
      else [])"
  by pat_completeness auto
termination
  by (relation "measure (\<lambda>(m, sentence, i). length sentence - i)") auto

declare hardSplit.simps [simp del]

text \<open>
  One iteration of \<^verbatim>\<open>for (const sentence of sentences)\<close> on the pair
  \<open>(textChunks, currentChunk)\<close>.
\<close>

fun packStep :: "nat \<Rightarrow> jstring list \<times> jstring \<Rightarrow> jstring \<Rightarrow> jstring list \<times> jstring" where
  "packStep m (textChunks, currentChunk) sentence =
     (if length sentence > m then
        (if currentChunk \<noteq> []
         then ((textChunks @ [currentChunk]) @ hardSplit m sentence 0, [])
         else (textChunks @ hardSplit m sentence 0, currentChunk))
      else if length (currentChunk @ sentence) > m then (textChunks @ [currentChunk], sentence)
      else (textChunks, currentChunk @ sentence))"

definition calculateChunksWith :: "nat \<Rightarrow> jstring \<Rightarrow> jstring list" where
  "calculateChunksWith m text =
     (if trim text = [] then []
      else (case foldl (packStep m) ([], []) (getSentencesFromText text) of
              (textChunks, currentChunk) \<Rightarrow>
                if currentChunk \<noteq> [] then textChunks @ [currentChunk] else textChunks))"

definition calculateChunks :: "jstring \<Rightarrow> jstring list" where
  "calculateChunks text = calculateChunksWith MAX_CHARS_PER_REQUEST text"

subsection \<open>The text without its separators\<close>



section \<open>JavaScript numbers\<close>

text \<open>
  A JavaScript number is modelled as the real it denotes; \<^verbatim>\<open>NaN\<close> and the infinities are
  not represented. The playback engine computes positions from the clock and branches on
  them, and rounding can decide the branch: its arithmetic (the duration of a buffer, the
  position of \<^verbatim>\<open>tick\<close>, of the pause and of \<^verbatim>\<open>onended\<close>) is written as the program
  computes it, in IEEE 754 binary64 arithmetic with rounding to nearest, ties to even.
  The other numbers are only stored or displayed, and their operations are written
  exactly: the samples of a buffer, which are exact in single precision, and the estimate
  of the remaining time.
\<close>

definition pow2 :: "int \<Rightarrow> real" where
  "pow2 e = (if 0 \<le> e then 2 ^ nat e else 1 / 2 ^ nat (- e))"

text \<open>
  The binary exponent of a positive number \<open>a\<close>, the integer \<open>e\<close> with
  \<open>pow2 e \<le> a < pow2 (e + 1)\<close>, from the number of binary digits of an integer.
\<close>

definition exponentOf :: "real \<Rightarrow> int" where
  "exponentOf a = (if 1 \<le> a then bitlen \<lfloor>a\<rfloor> - 1 else - bitlen (\<lceil>1 / a\<rceil> - 1))"

definition roundTiesToEven :: "real \<Rightarrow> int" where
  "roundTiesToEven y =
     (let f = \<lfloor>y\<rfloor>; r = y - of_int f
      in if r < 1 / 2 then f else if 1 / 2 < r then f + 1 else if even f then f else f + 1)"

text \<open>
  The double nearest to \<open>x\<close>: a multiple of the unit in the last place of the binade of
  \<open>x\<close>, with 53 significant bits, and of \<open>pow2 (- 1074)\<close> in the subnormal range. The numbers of
  the engine are times in seconds, far below the largest double, and overflow is not
  treated. A decimal literal \<^verbatim>\<open>0.1\<close> of the program is \<open>fl64 (1 / 10)\<close>.
\<close>

definition fl64 :: "real \<Rightarrow> real" where
  "fl64 x =
     (if x = 0 then 0
      else
        (let e = max (exponentOf \<bar>x\<bar>) (- 1022); ulp = pow2 (e - 52)
         in of_int (roundTiesToEven (x / ulp)) * ulp))"

text \<open>
  The operators \<^verbatim>\<open>+\<close>, \<^verbatim>\<open>-\<close>, \<^verbatim>\<open>*\<close> and \<^verbatim>\<open>/\<close> on doubles: the exact result, rounded.
  No divisor of the program is zero.
\<close>

definition fadd :: "real \<Rightarrow> real \<Rightarrow> real" where
  "fadd x y = fl64 (x + y)"

definition fsub :: "real \<Rightarrow> real \<Rightarrow> real" where
  "fsub x y = fl64 (x - y)"

definition fmul :: "real \<Rightarrow> real \<Rightarrow> real" where
  "fmul x y = fl64 (x * y)"

definition fdiv :: "real \<Rightarrow> real \<Rightarrow> real" where
  "fdiv x y = fl64 (x / y)"

section \<open>Audio buffers (utils/audioUtils.ts)\<close>

text \<open>A thrown value: an \<^verbatim>\<open>Error\<close> with its message, or anything else.\<close>

datatype thrown = Error string | NonError

record AudioBuffer =
  numberOfChannels :: nat
  bufferLength :: nat
  sampleRate :: real
  channelData :: "real list list"

text \<open>\<^verbatim>\<open>AudioBuffer.duration\<close>: the number of frames over the sample rate, a double.\<close>

definition bufferDuration :: "AudioBuffer \<Rightarrow> real" where
  "bufferDuration b = fdiv (real (bufferLength b)) (sampleRate b)"

text \<open>
  \<^verbatim>\<open>ctx.createBuffer(channels, length, rate)\<close>: silent channels; a buffer without channels or
  without frames is refused.
\<close>

definition createBuffer :: "nat \<Rightarrow> nat \<Rightarrow> real \<Rightarrow> thrown + AudioBuffer" where
  "createBuffer channels len rate =
     (if channels = 0 \<or> len = 0 then Inl (Error ''NotSupportedError'')
      else Inr \<lparr>numberOfChannels = channels, bufferLength = len, sampleRate = rate,
                channelData = replicate channels (replicate len 0)\<rparr>)"

text \<open>\<^verbatim>\<open>new Int16Array(data.buffer)\<close> on a little-endian platform.\<close>

fun int16Array :: "8 word list \<Rightarrow> 16 word list" where
  "int16Array (lo # hi # rest) = word_cat hi lo # int16Array rest"
| "int16Array rest = []"

definition decodeAudioData :: "8 word list \<Rightarrow> thrown + AudioBuffer" where
  "decodeAudioData data =
     (if odd (length data) then Inl (Error ''RangeError'')
      else
        (let dataInt16 = int16Array data; frameCount = length dataInt16
         in case createBuffer 1 frameCount 24000 of
              Inl e \<Rightarrow> Inl e
            | Inr buffer \<Rightarrow>
                Inr (buffer\<lparr>channelData := [map (\<lambda>w. real_of_int (sint w) / 32768) dataInt16]\<rparr>)))"

text \<open>
  \<^verbatim>\<open>Promise.all(xs.map(f))\<close> for calls that either fulfil or reject: the results in the
  order of \<open>xs\<close>, or a rejection. The order in which requests settle is not modelled; the
  rejection reported is that of the first failing element.
\<close>

fun promiseAll :: "('a \<Rightarrow> thrown + 'b) \<Rightarrow> 'a list \<Rightarrow> thrown + 'b list" where
  "promiseAll f [] = Inr []"
| "promiseAll f (x # xs) =
     (case f x of
        Inl e \<Rightarrow> Inl e
      | Inr y \<Rightarrow> (case promiseAll f xs of Inl e \<Rightarrow> Inl e | Inr ys \<Rightarrow> Inr (y # ys)))"

definition getChannelData :: "AudioBuffer \<Rightarrow> nat \<Rightarrow> thrown + real list" where
  "getChannelData b channel =
     (if channel < numberOfChannels b \<and> channel < length (channelData b)
      then Inr (channelData b ! channel)
      else Inl (Error ''IndexSizeError''))"

definition concatAudioBuffers :: "AudioBuffer list \<Rightarrow> thrown + AudioBuffer" where
  "concatAudioBuffers buffers =
     (if length buffers = 0 then createBuffer 1 1 24000
      else
        (let numberOfChannels = numberOfChannels (buffers ! 0);
             totalLength = foldl (\<lambda>acc buffer. acc + bufferLength buffer) 0 buffers
         in case createBuffer numberOfChannels totalLength (sampleRate (buffers ! 0)) of
              Inl e \<Rightarrow> Inl e
            | Inr result \<Rightarrow>
                (case promiseAll (\<lambda>channel. promiseAll (\<lambda>buffer. getChannelData buffer channel) buffers)
                        [0..<numberOfChannels] of
                   Inl e \<Rightarrow> Inl e
                 | Inr parts \<Rightarrow> Inr (result\<lparr>channelData := map concat parts\<rparr>))))"

section \<open>Application state (types.ts, App.tsx, AudioController)\<close>

record page_range =
  pageFrom :: nat
  pageTo :: nat

text \<open>
  The id \<^verbatim>\<open>`segment-${Date.now()}-${pageNum}`\<close> is kept as the pair of its two numbers,
  which the string determines.
\<close>

record segment =
  segId :: "nat \<times> nat"
  segText :: jstring
  audio :: AudioBuffer
  pageRange :: page_range

datatype status_message = NoMessage | Starting | Processing nat | Cancelling

record generation_status =
  isGenerating :: bool
  progress :: nat
  total_pages :: nat
  message :: status_message
  estimatedTime :: real

text \<open>
  The buffer source node held by \<^verbatim>\<open>sourceNodeRef\<close>. \<open>srcDuration\<close> is the value of
  \<^verbatim>\<open>duration\<close> in the render whose effect created the node: the \<^verbatim>\<open>tick\<close> and
  \<^verbatim>\<open>onended\<close> closures of that effect read this value.
\<close>

record source_node =
  srcBuffer :: AudioBuffer
  srcPlaybackRate :: real
  srcOffset :: real
  srcDuration :: real

text \<open>
  The state of \<^verbatim>\<open>App\<close> (React state, then refs) and of \<^verbatim>\<open>AudioController\<close>
  (\<open>generationStatus\<close>, \<open>isCancelled\<close>). \<open>pendingResume\<close> counts the
  \<^verbatim>\<open>setTimeout(() => setIsPlaying(true), 0)\<close> callbacks that \<^verbatim>\<open>handleSeek\<close> has queued.
\<close>

record app =
  audioSegments :: "segment list"
  currentSegment :: "segment option"
  isPlaying :: bool
  error :: "string option"
  currentPage :: nat
  duration :: real
  currentTime :: real
  playbackRate :: real
  audioContext :: bool
  sourceNode :: "source_node option"
  animationFrame :: bool
  startOffset :: real
  contextStartTime :: real
  pendingResume :: nat
  generationStatus :: generation_status
  isCancelled :: bool

definition idleStatus :: generation_status where
  "idleStatus =
     \<lparr>isGenerating = False, progress = 0, total_pages = 0, message = NoMessage, estimatedTime = 0\<rparr>"

definition initialApp :: app where
  "initialApp =
     \<lparr>audioSegments = [], currentSegment = None, isPlaying = False, error = None,
      currentPage = 1, duration = 0, currentTime = 0, playbackRate = 1, audioContext = True,
      sourceNode = None, animationFrame = False, startOffset = 0, contextStartTime = 0,
      pendingResume = 0, generationStatus = idleStatus, isCancelled = False\<rparr>"

section \<open>Playback engine (App.tsx)\<close>

definition cleanupAudio :: "app \<Rightarrow> app" where
  "cleanupAudio s = s\<lparr>sourceNode := None, animationFrame := False\<rparr>"

text \<open>\<^verbatim>\<open>segments.findIndex(pred)\<close>; \<open>None\<close> is \<^verbatim>\<open>-1\<close>.\<close>

fun findIndex :: "('a \<Rightarrow> bool) \<Rightarrow> 'a list \<Rightarrow> nat option" where
  "findIndex pred [] = None"
| "findIndex pred (x # xs) =
     (if pred x then Some 0 else map_option Suc (findIndex pred xs))"

definition handleTrackEnd :: "app \<Rightarrow> app" where
  "handleTrackEnd s =
     (let segments = audioSegments s; current = currentSegment s
      in case findIndex (\<lambda>x. Some (segId x) = map_option segId current) segments of
           None \<Rightarrow> s\<lparr>isPlaying := False\<rparr>
         | Some currentIndex \<Rightarrow>
             if currentIndex + 1 < length segments
             then s\<lparr>currentSegment := Some (segments ! (currentIndex + 1))\<rparr>
             else s\<lparr>isPlaying := False\<rparr>)"

text \<open>The effect on \<^verbatim>\<open>[playbackRate]\<close>.\<close>

definition rateEffect :: "app \<Rightarrow> app" where
  "rateEffect s =
     (case sourceNode s of
        None \<Rightarrow> s
      | Some src \<Rightarrow> s\<lparr>sourceNode := Some (src\<lparr>srcPlaybackRate := playbackRate s\<rparr>)\<rparr>)"

text \<open>
  The body of \<^verbatim>\<open>tick\<close>, run once per animation frame while a frame request is pending;
  \<open>now\<close> is \<^verbatim>\<open>context.currentTime\<close>.
\<close>

definition tick :: "real \<Rightarrow> app \<Rightarrow> app" where
  "tick now s =
     (case sourceNode s of
        None \<Rightarrow> s
      | Some src \<Rightarrow>
          if animationFrame s then
            (let currentRate = playbackRate s;
                 playbackTime = fmul (fsub now (contextStartTime s)) currentRate
             in s\<lparr>currentTime := min (fadd (startOffset s) playbackTime) (srcDuration src)\<rparr>)
          else s)"

text \<open>
  The two constants of \<^verbatim>\<open>source.onended\<close>, in double arithmetic: \<^verbatim>\<open>finalTime\<close>, the position
  computed from the clock \<open>now\<close>, and \<^verbatim>\<open>hasCompleted\<close>, which compares it with the
  duration \<open>d\<close> of the closure less the tolerance \<^verbatim>\<open>0.1\<close>.
\<close>

definition finalTime :: "real \<Rightarrow> app \<Rightarrow> real" where
  "finalTime now s =
     fadd (startOffset s) (fmul (fsub now (contextStartTime s)) (playbackRate s))"

definition hasCompleted :: "real \<Rightarrow> real \<Rightarrow> app \<Rightarrow> bool" where
  "hasCompleted now d s \<longleftrightarrow> finalTime now s \<ge> fsub d (fl64 (1 / 10))"

text \<open>
  \<^verbatim>\<open>source.onended\<close> of the node held by \<^verbatim>\<open>sourceNodeRef\<close>. \<^verbatim>\<open>cleanupAudio\<close> removes the
  handler of a node before the ref is cleared or replaced, so no other node has one.
\<close>

definition onended :: "real \<Rightarrow> app \<Rightarrow> app" where
  "onended now s =
     (case sourceNode s of
        None \<Rightarrow> s
      | Some src \<Rightarrow>
          if hasCompleted now (srcDuration src) s then handleTrackEnd s
          else s\<lparr>isPlaying := False\<rparr>)"

text \<open>The main effect, on \<^verbatim>\<open>[currentSegment, isPlaying, cleanupAudio, duration, handleTrackEnd]\<close>.\<close>

definition playbackEffect :: "real \<Rightarrow> app \<Rightarrow> app" where
  "playbackEffect now s =
     (case currentSegment s of
        None \<Rightarrow> (cleanupAudio s)\<lparr>duration := 0, currentTime := 0\<rparr>
      | Some seg \<Rightarrow>
          if \<not> audioContext s then (cleanupAudio s)\<lparr>duration := 0, currentTime := 0\<rparr>
          else if isPlaying s then
            (cleanupAudio s)
              \<lparr>sourceNode :=
                 Some \<lparr>srcBuffer = audio seg, srcPlaybackRate = playbackRate s,
                       srcOffset = startOffset s, srcDuration = duration s\<rparr>,
               contextStartTime := now,
               animationFrame := True\<rparr>
          else
            (case sourceNode s of
               None \<Rightarrow> s
             | Some src \<Rightarrow>
                 (let currentRate = playbackRate s;
                      elapsed = fmul (fsub now (contextStartTime s)) currentRate
                  in cleanupAudio
                       (s\<lparr>startOffset := min (fadd (startOffset s) elapsed) (duration s)\<rparr>))))"

text \<open>The effect on \<^verbatim>\<open>[currentSegment]\<close>.\<close>

definition segmentEffect :: "app \<Rightarrow> app" where
  "segmentEffect s =
     (case currentSegment s of
        None \<Rightarrow> s
      | Some seg \<Rightarrow>
          s\<lparr>duration := bufferDuration (audio seg), currentTime := 0, startOffset := 0,
            currentPage := pageFrom (pageRange seg)\<rparr>)"

text \<open>
  The effects that React runs after committing the render of \<open>s\<close>, in the order of their
  declaration: each runs when one of its dependencies differs from the previous render
  \<open>prev\<close>.
\<close>

definition runEffects :: "app \<Rightarrow> real \<Rightarrow> app \<Rightarrow> app" where
  "runEffects prev now s =
     (let s1 = (if playbackRate s \<noteq> playbackRate prev then rateEffect s else s);
          s2 = (if currentSegment s \<noteq> currentSegment prev \<or> isPlaying s \<noteq> isPlaying prev
                   \<or> duration s \<noteq> duration prev
                then playbackEffect now s1 else s1);
          s3 = (if currentSegment s \<noteq> currentSegment prev then segmentEffect s2 else s2)
      in s3)"

definition handlePlaybackRequest :: "segment \<Rightarrow> app \<Rightarrow> app" where
  "handlePlaybackRequest segmentToPlay s =
     (if map_option segId (currentSegment s) = Some (segId segmentToPlay)
      then s\<lparr>isPlaying := \<not> isPlaying s\<rparr>
      else s\<lparr>currentSegment := Some segmentToPlay, isPlaying := True\<rparr>)"

definition handleMainPlayPause :: "bool \<Rightarrow> app \<Rightarrow> app" where
  "handleMainPlayPause newIsPlayingState s =
     (case currentSegment s of
        Some seg \<Rightarrow> s\<lparr>isPlaying := newIsPlayingState\<rparr>
      | None \<Rightarrow>
          if length (audioSegments s) > 0
          then s\<lparr>currentSegment := Some (audioSegments s ! 0), isPlaying := True\<rparr>
          else s)"

text \<open>
  \<^verbatim>\<open>handleAutoplayFirstSegment\<close> is a \<^verbatim>\<open>useCallback\<close> on \<^verbatim>\<open>[isPlaying, currentSegment]\<close>:
  its body reads \<^verbatim>\<open>isPlaying\<close> and \<^verbatim>\<open>currentSegment\<close> of the render that created it
  (\<open>rendered\<close>), and its state setters act on the state at the time of the call (\<open>s\<close>).
\<close>

definition handleAutoplayFirstSegment :: "app \<Rightarrow> segment \<Rightarrow> app \<Rightarrow> app" where
  "handleAutoplayFirstSegment rendered seg s =
     (if \<not> isPlaying rendered \<and> currentSegment rendered = None
      then s\<lparr>currentSegment := Some seg, isPlaying := True\<rparr>
      else s)"

definition handleSeek :: "real \<Rightarrow> app \<Rightarrow> app" where
  "handleSeek newTime s =
     (if \<not> audioContext s then s
      else
        (let s1 = s\<lparr>currentTime := newTime, startOffset := newTime\<rparr>
         in if isPlaying s then s1\<lparr>isPlaying := False, pendingResume := pendingResume s + 1\<rparr>
            else s1))"

text \<open>The callback queued by \<^verbatim>\<open>handleSeek\<close>.\<close>

definition resumeTimeout :: "app \<Rightarrow> app" where
  "resumeTimeout s =
     (if pendingResume s > 0 then s\<lparr>isPlaying := True, pendingResume := pendingResume s - 1\<rparr>
      else s)"

definition handlePlaybackRateChange :: "real \<Rightarrow> app \<Rightarrow> app" where
  "handlePlaybackRateChange newRate s = s\<lparr>playbackRate := newRate\<rparr>"

section \<open>Generation pipeline (AudioController: handleStop, handleGenerate)\<close>

text \<open>
  \<^verbatim>\<open>handleGenerate\<close> is an asynchronous function: while it awaits the requests of a page,
  the user interface handles other events. The ones that touch the state the pipeline reads
  or writes are the stop button and the play buttons. Their handlers are applied here; the
  effects that React runs after them are those of the playback engine above, which write
  only the fields of the engine.
\<close>

datatype event = Stop | PlaybackRequest segment | MainPlayPause bool

text \<open>
  What the pipeline takes from outside: the remote synthesis call (absent from the
  sources; \<open>Inl\<close> is a rejected promise), the browser's \<^verbatim>\<open>atob\<close>, the value of
  \<^verbatim>\<open>Date.now()\<close> when the segment of a page is built, and the events handled while the
  requests of a page are awaited.
\<close>

record env =
  generateSpeech :: "jstring \<Rightarrow> thrown + jstring"
  atob :: "jstring \<Rightarrow> thrown + jstring"
  dateNow :: "nat \<Rightarrow> nat"
  during :: "nat \<Rightarrow> event list"

text \<open>\<^verbatim>\<open>decode\<close> of audioUtils.ts: the code units of \<^verbatim>\<open>atob(base64)\<close> stored as bytes.\<close>

definition decode :: "(jstring \<Rightarrow> thrown + jstring) \<Rightarrow> jstring \<Rightarrow> thrown + 8 word list" where
  "decode atobFn base64 =
     (case atobFn base64 of
        Inl e \<Rightarrow> Inl e
      | Inr binaryString \<Rightarrow> Inr (map ucast binaryString))"

definition handleStop :: "app \<Rightarrow> app" where
  "handleStop s =
     s\<lparr>isCancelled := True,
       generationStatus := (generationStatus s)\<lparr>message := Cancelling\<rparr>\<rparr>"

fun dispatch :: "event \<Rightarrow> app \<Rightarrow> app" where
  "dispatch Stop s = handleStop s"
| "dispatch (PlaybackRequest seg) s = handlePlaybackRequest seg s"
| "dispatch (MainPlayPause b) s = handleMainPlayPause b s"

definition SECONDS_PER_CHUNK :: real where
  "SECONDS_PER_CHUNK = 12 / 10"

text \<open>\<^verbatim>\<open>Number(fromPage)\<close> for a page field that holds a positive number or \<^verbatim>\<open>''\<close>.\<close>

definition Number :: "nat option \<Rightarrow> nat" where
  "Number v = (case v of None \<Rightarrow> 0 | Some n \<Rightarrow> n)"

definition incProgress :: "app \<Rightarrow> app" where
  "incProgress s =
     s\<lparr>generationStatus := (generationStatus s)\<lparr>progress := progress (generationStatus s) + 1\<rparr>\<rparr>"

text \<open>How an iteration of the page loop ends: \<^verbatim>\<open>continue\<close> or its end, \<^verbatim>\<open>break\<close>, or a throw.\<close>

datatype flow = Continue | Break | Throw thrown

text \<open>\<^verbatim>\<open>base64 => decodeAudioData(decode(base64), outputAudioContext)\<close>.\<close>

definition decodeChunk :: "env \<Rightarrow> jstring \<Rightarrow> thrown + AudioBuffer" where
  "decodeChunk E base64 =
     (case decode (atob E) base64 of
        Inl e \<Rightarrow> Inl e
      | Inr bytes \<Rightarrow> decodeAudioData bytes)"

text \<open>The two awaited \<^verbatim>\<open>Promise.all\<close> of a page: the requests, then the decoding.\<close>

definition awaitAudioBuffers :: "env \<Rightarrow> jstring list \<Rightarrow> thrown + AudioBuffer list" where
  "awaitAudioBuffers E textChunks =
     (case promiseAll (generateSpeech E) textChunks of
        Inl e \<Rightarrow> Inl e
      | Inr base64AudioChunks \<Rightarrow> promiseAll (decodeChunk E) base64AudioChunks)"

definition combineAudioBuffers :: "AudioBuffer list \<Rightarrow> thrown + AudioBuffer" where
  "combineAudioBuffers audioBuffers =
     (if length audioBuffers > 1 then concatAudioBuffers audioBuffers
      else Inr (audioBuffers ! 0))"

text \<open>
  The end of an iteration that has its audio: the segment is appended, played if it is the
  segment of the first page (\<open>rendered\<close> is the state of the render whose
  \<^verbatim>\<open>handleGenerate\<close> is running: the \<^verbatim>\<open>onAutoplayFirstSegment\<close> prop it calls is the
  callback of that render), and the page is counted.
\<close>

definition emitSegment ::
  "env \<Rightarrow> app \<Rightarrow> nat \<Rightarrow> nat \<Rightarrow> jstring \<Rightarrow> AudioBuffer \<Rightarrow> app \<Rightarrow> app" where
  "emitSegment E rendered fromP pageNum textToProcess combinedAudioBuffer s =
     (let newSegment =
            \<lparr>segId = (dateNow E pageNum, pageNum), segText = textToProcess,
             audio = combinedAudioBuffer,
             pageRange = \<lparr>pageFrom = pageNum, pageTo = pageNum\<rparr>\<rparr>;
          s3 = s\<lparr>audioSegments := audioSegments s @ [newSegment]\<rparr>;
          s4 = (if pageNum = fromP then handleAutoplayFirstSegment rendered newSegment s3 else s3)
      in incProgress s4)"

text \<open>
  The body of \<^verbatim>\<open>for (let pageNum = from; pageNum <= to; pageNum++)\<close>. The events of
  \<open>during E pageNum\<close> are handled while the requests are awaited, whether they succeed or not.
\<close>

definition processPage ::
  "env \<Rightarrow> jstring list \<Rightarrow> app \<Rightarrow> nat \<Rightarrow> nat \<Rightarrow> app \<Rightarrow> flow \<times> app" where
  "processPage E pages rendered fromP pageNum s =
     (if isCancelled s then (Break, s)
      else
        (let s1 = s\<lparr>generationStatus := (generationStatus s)\<lparr>message := Processing pageNum\<rparr>\<rparr>
         in if pageNum = 0 \<or> length pages < pageNum then (Throw (Error ''TypeError''), s1)
            else
              (let textToProcess = pages ! (pageNum - 1)
               in if trim textToProcess = [] then (Continue, incProgress s1)
                  else
                    (let textChunks = calculateChunks textToProcess;
                         s2 = foldl (\<lambda>st e. dispatch e st) s1 (during E pageNum)
                     in case awaitAudioBuffers E textChunks of
                          Inl e \<Rightarrow> (Throw e, s2)
                        | Inr audioBuffers \<Rightarrow>
                            if isCancelled s2 then (Break, s2)
                            else if length audioBuffers = 0 then (Continue, incProgress s2)
                            else
                              (case combineAudioBuffers audioBuffers of
                                 Inl e \<Rightarrow> (Throw e, s2)
                               | Inr combinedAudioBuffer \<Rightarrow>
                                   (Continue,
                                    emitSegment E rendered fromP pageNum textToProcess
                                      combinedAudioBuffer s2))))))"

text \<open>The loop over the page numbers; \<open>Continue\<close> at the end is the loop running to its end.\<close>

fun pagesLoop :: "(nat \<Rightarrow> app \<Rightarrow> flow \<times> app) \<Rightarrow> nat list \<Rightarrow> app \<Rightarrow> flow \<times> app" where
  "pagesLoop body [] s = (Continue, s)"
| "pagesLoop body (pageNum # rest) s =
     (case body pageNum s of
        (Continue, s') \<Rightarrow> pagesLoop body rest s'
      | (Break, s') \<Rightarrow> (Break, s')
      | (Throw e, s') \<Rightarrow> (Throw e, s'))"

definition generateLoop ::
  "env \<Rightarrow> jstring list \<Rightarrow> app \<Rightarrow> nat \<Rightarrow> nat \<Rightarrow> app \<Rightarrow> flow \<times> app" where
  "generateLoop E pages rendered fromP toP s =
     pagesLoop (processPage E pages rendered fromP) [fromP..<Suc toP] s"

text \<open>The statements of \<^verbatim>\<open>handleGenerate\<close> between the range check and the \<^verbatim>\<open>try\<close>.\<close>

definition beginGeneration :: "jstring list \<Rightarrow> nat \<Rightarrow> nat \<Rightarrow> app \<Rightarrow> app" where
  "beginGeneration pages fromP toP s =
     (let totalChunks =
            foldl (\<lambda>acc i. acc + length (calculateChunks (pages ! (i - 1)))) 0 [fromP..<Suc toP];
          initialEstimate = real totalChunks * SECONDS_PER_CHUNK
      in s\<lparr>isCancelled := False, error := None,
           generationStatus :=
             \<lparr>isGenerating = True, progress = 0, total_pages = toP - fromP + 1,
              message = Starting, estimatedTime = initialEstimate\<rparr>\<rparr>)"

text \<open>The \<^verbatim>\<open>catch\<close> and \<^verbatim>\<open>finally\<close> blocks.\<close>

definition catchFinally :: "flow \<times> app \<Rightarrow> app" where
  "catchFinally r =
     (case r of
        (outcome, s) \<Rightarrow>
          (let s1 = (case outcome of
                       Throw err \<Rightarrow>
                         if \<not> isCancelled s
                         then s\<lparr>error :=
                                 Some (case err of
                                         Error m \<Rightarrow> m
                                       | NonError \<Rightarrow>
                                           ''An unknown error occurred during audio generation.'')\<rparr>
                         else s
                     | Continue \<Rightarrow> s
                     | Break \<Rightarrow> s);
               s2 = (if isCancelled s1
                     then s1\<lparr>error := Some ''Audio generation was cancelled by the user.''\<rparr>
                     else s1)
           in s2\<lparr>isCancelled := False, generationStatus := idleStatus\<rparr>))"

definition handleGenerate :: "env \<Rightarrow> jstring list \<Rightarrow> nat option \<Rightarrow> nat option \<Rightarrow> app \<Rightarrow> app" where
  "handleGenerate E pages fromPage toPage s =
     (let fromP = Number fromPage; toP = Number toPage
      in if fromP > toP \<or> fromP < 1 \<or> toP > length pages
         then s\<lparr>error := Some ''Invalid page range.''\<rparr>
         else catchFinally (generateLoop E pages s fromP toP (beginGeneration pages fromP toP s)))"

text \<open>The red banner of \<^verbatim>\<open>App\<close> is rendered exactly when \<^verbatim>\<open>error\<close> is not null.\<close>

definition errorBanner :: "app \<Rightarrow> bool" where
  "errorBanner s \<longleftrightarrow> error s \<noteq> None"

text \<open>Whether the requests of a chunk succeed: synthesis, \<^verbatim>\<open>atob\<close> and decoding.\<close>

definition synthesizes :: "env \<Rightarrow> jstring \<Rightarrow> bool" where
  "synthesizes E chunk =
     (case generateSpeech E chunk of
        Inl e \<Rightarrow> False
      | Inr base64 \<Rightarrow> \<not> isl (decodeChunk E base64))"

section \<open>Example inputs\<close>

text \<open>
  A synthesis service that answers every chunk with \<^verbatim>\<open>"AAA="\<close>, which \<^verbatim>\<open>atob\<close> decodes to
  two zero bytes (one silent frame); one that fails on the chunk \<^verbatim>\<open>"Yo."\<close>; a two-page book.
\<close>

definition exSpeech :: "jstring \<Rightarrow> thrown + jstring" where
  "exSpeech chunk = Inr (utf16 ''AAA='')"

definition exSpeechFailing :: "jstring \<Rightarrow> thrown + jstring" where
  "exSpeechFailing chunk =
     (if chunk = utf16 ''Yo.'' then Inl (Error ''Failed to generate speech'')
      else Inr (utf16 ''AAA=''))"

definition exEnv :: "(jstring \<Rightarrow> thrown + jstring) \<Rightarrow> nat \<Rightarrow> (nat \<Rightarrow> event list) \<Rightarrow> env" where
  "exEnv speech t events =
     \<lparr>generateSpeech = speech, atob = (\<lambda>base64. Inr [0, 0]), dateNow = (\<lambda>p. t),
      during = events\<rparr>"

definition exPages :: "jstring list" where
  "exPages = [utf16 ''Hi.'', utf16 ''Yo.'']"

definition exStopOnPage2 :: "nat \<Rightarrow> event list" where
  "exStopOnPage2 p = (if p = 2 then [Stop] else [])"

definition exQuiet :: "nat \<Rightarrow> event list" where
  "exQuiet p = []"

text \<open>
  A book of five pages whose page 4 is blank; a book whose page 1 is blank, the state after a
  run over its two pages, the segment that run made, and a user who starts playing that
  segment while the request of page 2 is awaited.
\<close>

definition exFivePages :: "jstring list" where
  "exFivePages = [utf16 ''One.'', utf16 ''Two.'', utf16 ''Three. Is it?'', utf16 ''  '', utf16 ''Five.'']"

definition exBlankFirst :: "jstring list" where
  "exBlankFirst = [utf16 '' '', utf16 ''Hi.'']"

definition exSegmentA :: segment where
  "exSegmentA =
     \<lparr>segId = (1000, 2), segText = utf16 ''Hi.'',
      audio = \<lparr>numberOfChannels = 1, bufferLength = 1, sampleRate = 24000, channelData = [[0]]\<rparr>,
      pageRange = \<lparr>pageFrom = 2, pageTo = 2\<rparr>\<rparr>"

definition exAfterFirstRun :: app where
  "exAfterFirstRun =
     handleGenerate (exEnv exSpeech 1000 exQuiet) exBlankFirst (Some 1) (Some 2) initialApp"

definition exPlayOnPage2 :: "nat \<Rightarrow> event list" where
  "exPlayOnPage2 p = (if p = 2 then [PlaybackRequest exSegmentA] else [])"

text \<open>
  A segment of ten seconds of silence, a second one, the state in which a segment of a
  playlist has been playing from its start since the audio clock read 0, at rate 1, and the
  state after pausing it 4 seconds later.
\<close>

definition exAudio10 :: AudioBuffer where
  "exAudio10 =
     \<lparr>numberOfChannels = 1, bufferLength = 240000, sampleRate = 24000,
      channelData = [replicate 240000 0]\<rparr>"

definition exTrack1 :: segment where
  "exTrack1 =
     \<lparr>segId = (1000, 1), segText = utf16 ''Hi.'', audio = exAudio10,
      pageRange = \<lparr>pageFrom = 1, pageTo = 1\<rparr>\<rparr>"

definition exTrack2 :: segment where
  "exTrack2 =
     \<lparr>segId = (1000, 2), segText = utf16 ''Yo.'', audio = exAudio10,
      pageRange = \<lparr>pageFrom = 2, pageTo = 2\<rparr>\<rparr>"

definition exPlaying :: "segment list \<Rightarrow> segment \<Rightarrow> app" where
  "exPlaying playlist seg =
     initialApp
       \<lparr>audioSegments := playlist, currentSegment := Some seg, isPlaying := True,
        currentPage := pageFrom (pageRange seg), duration := 10,
        sourceNode := Some \<lparr>srcBuffer = audio seg, srcPlaybackRate = 1, srcOffset = 0,
                             srcDuration = 10\<rparr>,
        animationFrame := True\<rparr>"

definition exPaused :: app where
  "exPaused = runEffects (exPlaying [exTrack1] exTrack1) 4
     (handleMainPlayPause False (exPlaying [exTrack1] exTrack1))"

section \<open>Properties of the chunker\<close>

lemma substring_take_drop:
  "i \<le> j \<Longrightarrow> substring s i j = take (j - i) (drop i s)"
  by (auto simp: substring_def Let_def min_def max_def)

lemma length_substring_le: "length (substring s i (i + m)) \<le> m"
  by (simp add: substring_take_drop)

lemma concat_hardSplit:
  "0 < m \<Longrightarrow> concat (hardSplit m s i) = drop i s"
proof (induction m s i rule: hardSplit.induct)
  case (1 m s i)
  show ?case
  proof (cases "i < length s")
    case True
    have "drop i s = take m (drop i s) @ drop (i + m) s"
      by (metis append_take_drop_id drop_drop add.commute)
    with True 1 show ?thesis
      by (subst hardSplit.simps) (simp add: substring_take_drop)
  next
    case False
    then show ?thesis
      by (subst hardSplit.simps) simp
  qed
qed

lemma hardSplit_bound:
  "c \<in> set (hardSplit m s i) \<Longrightarrow> length c \<le> m"
proof (induction m s i rule: hardSplit.induct)
  case (1 m s i)
  from "1.prems" have "i < length s \<and> 0 < m"
    by (subst (asm) hardSplit.simps) (auto split: if_splits)
  with "1.prems" have "c = substring s i (i + m) \<or> c \<in> set (hardSplit m s (i + m))"
    by (subst (asm) hardSplit.simps) simp
  with 1 \<open>i < length s \<and> 0 < m\<close> show ?case
    using length_substring_le by blast
qed

lemma packStep_concat:
  "0 < m \<Longrightarrow> packStep m (tc, cc) s = (tc', cc') \<Longrightarrow>
     concat tc' @ cc' = concat tc @ cc @ s"
  by (auto simp: concat_hardSplit split: if_splits)

lemma foldl_packStep_concat:
  "0 < m \<Longrightarrow> foldl (packStep m) (tc, cc) ss = (tc', cc') \<Longrightarrow>
     concat tc' @ cc' = concat tc @ cc @ concat ss"
proof (induction ss arbitrary: tc cc)
  case Nil
  then show ?case by simp
next
  case (Cons s ss)
  obtain tc1 cc1 where st: "packStep m (tc, cc) s = (tc1, cc1)"
    by (cases "packStep m (tc, cc) s")
  with Cons.prems have "foldl (packStep m) (tc1, cc1) ss = (tc', cc')"
    by simp
  with Cons.IH Cons.prems(1) have "concat tc' @ cc' = concat tc1 @ cc1 @ concat ss"
    by blast
  with packStep_concat [OF Cons.prems(1) st] show ?case
    by simp
qed

lemma packStep_bound:
  "packStep m (tc, cc) s = (tc', cc') \<Longrightarrow>
     (\<forall>c\<in>set tc. length c \<le> m) \<Longrightarrow> length cc \<le> m \<Longrightarrow>
     (\<forall>c\<in>set tc'. length c \<le> m) \<and> length cc' \<le> m"
  by (auto split: if_splits dest: hardSplit_bound)

lemma foldl_packStep_bound:
  "foldl (packStep m) (tc, cc) ss = (tc', cc') \<Longrightarrow>
     (\<forall>c\<in>set tc. length c \<le> m) \<Longrightarrow> length cc \<le> m \<Longrightarrow>
     (\<forall>c\<in>set tc'. length c \<le> m) \<and> length cc' \<le> m"
proof (induction ss arbitrary: tc cc)
  case Nil
  then show ?case by simp
next
  case (Cons s ss)
  obtain tc1 cc1 where st: "packStep m (tc, cc) s = (tc1, cc1)"
    by (cases "packStep m (tc, cc) s")
  with Cons.prems have f: "foldl (packStep m) (tc1, cc1) ss = (tc', cc')"
    by simp
  from packStep_bound [OF st Cons.prems(2) Cons.prems(3)]
  have "(\<forall>c\<in>set tc1. length c \<le> m) \<and> length cc1 \<le> m" .
  with Cons.IH [OF f] show ?case
    by blast
qed

lemma concat_calculateChunksWith:
  assumes "0 < m"
  shows "concat (calculateChunksWith m text) = concat (getSentencesFromText text)"
proof (cases "trim text = []")
  case True
  then show ?thesis
    by (simp add: calculateChunksWith_def getSentencesFromText_def)
next
  case False
  obtain tc cc where f: "foldl (packStep m) ([], []) (getSentencesFromText text) = (tc, cc)"
    by (cases "foldl (packStep m) ([], []) (getSentencesFromText text)")
  from foldl_packStep_concat [OF assms f]
  have "concat tc @ cc = concat (getSentencesFromText text)"
    by simp
  with False f show ?thesis
    by (auto simp: calculateChunksWith_def)
qed

lemma calculateChunksWith_bound:
  assumes "c \<in> set (calculateChunksWith m text)"
  shows "length c \<le> m"
proof (cases "trim text = []")
  case True
  with assms show ?thesis
    by (simp add: calculateChunksWith_def)
next
  case False
  obtain tc cc where f: "foldl (packStep m) ([], []) (getSentencesFromText text) = (tc, cc)"
    by (cases "foldl (packStep m) ([], []) (getSentencesFromText text)")
  from foldl_packStep_bound [OF f]
  have "(\<forall>c\<in>set tc. length c \<le> m) \<and> length cc \<le> m"
    by simp
  with False f assms show ?thesis
    by (auto simp: calculateChunksWith_def split: if_splits)
qed

lemma substring_to_end: "substring S p (length S) = drop p S"
  by (auto simp: substring_def Let_def min_def max_def)

lemma trim_Nil_iff: "trim s = [] \<longleftrightarrow> (\<forall>c\<in>set s. isWhitespace c)"
proof
  assume "trim s = []"
  then have "dropWhile isWhitespace (rev (dropWhile isWhitespace s)) = []"
    by (simp add: trim_def)
  then have "\<forall>c\<in>set (dropWhile isWhitespace s). isWhitespace c"
    by (simp add: dropWhile_eq_Nil_conv)
  then have "dropWhile isWhitespace s = []"
    by (metis dropWhile_eq_Nil_conv hd_dropWhile list.set_sel(1))
  then show "\<forall>c\<in>set s. isWhitespace c"
    by (simp add: dropWhile_eq_Nil_conv)
next
  assume "\<forall>c\<in>set s. isWhitespace c"
  then have d: "dropWhile isWhitespace s = []"
    by (simp add: dropWhile_eq_Nil_conv)
  show "trim s = []"
    unfolding trim_def d by simp
qed


text \<open>The piece between two cuts, and what the separator consumes.\<close>

lemma drop_split3:
  assumes "p \<le> q"
  shows "drop p S = substring S p q @ takeWhile P (drop q S) @ drop (q + length (takeWhile P (drop q S))) S"
proof -
  have "drop p S = take (q - p) (drop p S) @ drop q S"
    using assms by (metis append_take_drop_id drop_drop le_add_diff_inverse2)
  moreover have "drop q S = takeWhile P (drop q S) @ drop (length (takeWhile P (drop q S))) (drop q S)"
    by (metis takeWhile_dropWhile_id dropWhile_eq_drop)
  ultimately show ?thesis
    using assms by (simp add: substring_take_drop add.commute)
qed

lemma splitLoop_nonws:
  "p \<le> q \<Longrightarrow>
     filter (\<lambda>c. \<not> isWhitespace c) (concat (splitLoop S p q)) = filter (\<lambda>c. \<not> isWhitespace c) (drop p S)"
proof (induction S p q rule: splitLoop.induct)
  case (1 S p q)
  show ?case
  proof (cases "q < length S")
    case False
    then show ?thesis
      by (subst splitLoop.simps) (simp add: substring_to_end)
  next
    case True
    show ?thesis
    proof (cases "matchSeparator S q")
      case None
      with True 1 show ?thesis
        by (subst splitLoop.simps) simp
    next
      case (Some e)
      show ?thesis
      proof (cases "e = p")
        case True
        with \<open>q < length S\<close> Some 1 show ?thesis
          by (subst splitLoop.simps) simp
      next
        case False
        from Some have e: "e = q + length (takeWhile isWhitespace (drop q S))"
          by (auto simp: matchSeparator_def split: if_splits)
        have "length (takeWhile isWhitespace (drop q S)) \<le> length (drop q S)"
          by (rule length_takeWhile_le)
        with e True have le: "e \<le> length S"
          by simp
        then have m: "min e (length S) = e"
          by simp
        have ih: "filter (\<lambda>c. \<not> isWhitespace c) (concat (splitLoop S e e))
            = filter (\<lambda>c. \<not> isWhitespace c) (drop e S)"
          using "1.IH"(3) [OF True Some False] m by simp
        have ws: "filter (\<lambda>c. \<not> isWhitespace c) (takeWhile isWhitespace (drop q S)) = []"
          by (simp add: filter_empty_conv) (meson set_takeWhileD)
        have "splitLoop S p q = substring S p q # splitLoop S e e"
          using True Some False m by (subst splitLoop.simps) simp
        moreover have "drop p S = substring S p q @ takeWhile isWhitespace (drop q S) @ drop e S"
          using drop_split3 [OF "1.prems", of S isWhitespace] e by simp
        ultimately show ?thesis
          using ih ws by simp
      qed
    qed
  qed
qed


lemma filter_units_nonws:
  "filter (\<lambda>c. \<not> isWhitespace c) (concat (filter (\<lambda>s. s \<noteq> [] \<and> 0 < length (trim s)) us))
     = filter (\<lambda>c. \<not> isWhitespace c) (concat us)"
proof (induction us)
  case Nil
  then show ?case by simp
next
  case (Cons u us)
  have "trim u = [] \<Longrightarrow> filter (\<lambda>c. \<not> isWhitespace c) u = []"
    by (simp add: trim_Nil_iff filter_empty_conv)
  with Cons show ?case
    by auto
qed


lemma getSentencesFromText_nonws:
  "filter (\<lambda>c. \<not> isWhitespace c) (concat (getSentencesFromText text))
     = filter (\<lambda>c. \<not> isWhitespace c) text"
proof (cases "text = [] \<or> trim text = []")
  case True
  then have "filter (\<lambda>c. \<not> isWhitespace c) text = []"
    by (auto simp: trim_Nil_iff filter_empty_conv)
  with True show ?thesis
    by (simp add: getSentencesFromText_def)
next
  case False
  then show ?thesis
    using splitLoop_nonws [of 0 0 "text"] filter_units_nonws [of "splitLoop text 0 0"]
    by (simp add: getSentencesFromText_def)
qed


















text \<open>
  Claim C7: for every input text and every positive budget, every chunk that the chunker
  returns has at most \<open>maxChars\<close> characters; the hard-split fragments too, so in
  particular every chunk that is not one.
\<close>

theorem chunk_length_le_maxChars:
  assumes "0 < maxChars" and "c \<in> set (calculateChunksWith maxChars text)"
  shows "length c \<le> maxChars"
  using assms(2) by (rule calculateChunksWith_bound)

theorem chunk_length_le_maxChars_witness:
  "utf16 ''Hi.Yo.'' \<in> set (calculateChunksWith 6 (utf16 ''Hi. Yo. abcdefghijklm no''))
    \<and> length (utf16 ''Hi.Yo.'') \<le> 6"
proof -
  have pos: "(0::nat) < 6"
    by simp
  have mem: "utf16 ''Hi.Yo.'' \<in> set (calculateChunksWith 6 (utf16 ''Hi. Yo. abcdefghijklm no''))"
    by code_simp
  from chunk_length_le_maxChars [OF pos mem] mem show ?thesis
    by simp
qed

section \<open>Properties of the generation pipeline\<close>

subsection \<open>Events\<close>

lemma dispatch_audioSegments [simp]: "audioSegments (dispatch e s) = audioSegments s"
  by (cases e)
     (simp_all add: handleStop_def handlePlaybackRequest_def handleMainPlayPause_def
        split: option.splits)

lemma events_audioSegments [simp]:
  "audioSegments (foldl (\<lambda>st e. dispatch e st) s es) = audioSegments s"
  by (induction es arbitrary: s) simp_all

lemma dispatch_isCancelled: "isCancelled (dispatch e s) \<longleftrightarrow> e = Stop \<or> isCancelled s"
  by (cases e)
     (simp_all add: handleStop_def handlePlaybackRequest_def handleMainPlayPause_def
        split: option.splits)

lemma events_isCancelled:
  "isCancelled (foldl (\<lambda>st e. dispatch e st) s es) \<longleftrightarrow> Stop \<in> set es \<or> isCancelled s"
  by (induction es arbitrary: s) (auto simp: dispatch_isCancelled)

lemma dispatch_generationStatus:
  "e \<noteq> Stop \<Longrightarrow> generationStatus (dispatch e s) = generationStatus s"
  by (cases e)
     (simp_all add: handlePlaybackRequest_def handleMainPlayPause_def split: option.splits)

lemma events_generationStatus:
  "Stop \<notin> set es \<Longrightarrow>
     generationStatus (foldl (\<lambda>st e. dispatch e st) s es) = generationStatus s"
  by (induction es arbitrary: s) (auto simp: dispatch_generationStatus)

lemma handleAutoplayFirstSegment_keeps [simp]:
  "audioSegments (handleAutoplayFirstSegment r seg s) = audioSegments s"
  "generationStatus (handleAutoplayFirstSegment r seg s) = generationStatus s"
  "isCancelled (handleAutoplayFirstSegment r seg s) = isCancelled s"
  by (simp_all add: handleAutoplayFirstSegment_def)

lemma incProgress_keeps [simp]:
  "audioSegments (incProgress s) = audioSegments s"
  "isCancelled (incProgress s) = isCancelled s"
  "progress (generationStatus (incProgress s)) = progress (generationStatus s) + 1"
  "total_pages (generationStatus (incProgress s)) = total_pages (generationStatus s)"
  by (simp_all add: incProgress_def)

lemma emitSegment_fields:
  "\<exists>seg. audioSegments (emitSegment E r f p txt buf s) = audioSegments s @ [seg]
     \<and> pageRange seg = \<lparr>pageFrom = p, pageTo = p\<rparr> \<and> segText seg = txt \<and> audio seg = buf"
  "isCancelled (emitSegment E r f p txt buf s) = isCancelled s"
  "progress (generationStatus (emitSegment E r f p txt buf s)) = progress (generationStatus s) + 1"
  "total_pages (generationStatus (emitSegment E r f p txt buf s)) = total_pages (generationStatus s)"
  by (simp_all add: emitSegment_def Let_def)

lemma emitSegment_audioSegments:
  "audioSegments (emitSegment E r f p ptext buf s) =
     audioSegments s @ [\<lparr>segId = (dateNow E p, p), segText = ptext, audio = buf,
                          pageRange = \<lparr>pageFrom = p, pageTo = p\<rparr>\<rparr>]"
  by (simp add: emitSegment_def Let_def)

subsection \<open>One page\<close>

text \<open>An iteration that does not end normally leaves the playlist as it found it.\<close>

lemma processPage_halt_audioSegments:
  assumes "processPage E pages r f p s = (outcome, s')" and "outcome \<noteq> Continue"
  shows "audioSegments s' = audioSegments s"
  using assms
  by (auto simp: processPage_def Let_def split: if_splits sum.splits)

text \<open>An iteration that ends normally was not cancelled.\<close>

lemma processPage_Continue_isCancelled:
  assumes "processPage E pages r f p s = (Continue, s')"
  shows "\<not> isCancelled s'"
  using assms
  by (auto simp: processPage_def Let_def events_isCancelled emitSegment_fields
      split: if_splits sum.splits)

lemma processPage_prefix:
  assumes "processPage E pages r f p s = (outcome, s')"
  shows "prefix (audioSegments s) (audioSegments s')"
  using assms
  by (auto simp: processPage_def Let_def emitSegment_audioSegments split: if_splits sum.splits)

subsection \<open>The loop\<close>

lemma pagesLoop_append:
  "pagesLoop body (xs @ ys) s =
     (case pagesLoop body xs s of
        (Continue, s') \<Rightarrow> pagesLoop body ys s'
      | (Break, s') \<Rightarrow> (Break, s')
      | (Throw e, s') \<Rightarrow> (Throw e, s'))"
  by (induction xs arbitrary: s) (auto split: prod.splits flow.splits)

lemma pagesLoop_prefix:
  "pagesLoop (processPage E pages r f) ps s = (outcome, s') \<Longrightarrow>
     prefix (audioSegments s) (audioSegments s')"
proof (induction ps arbitrary: s)
  case Nil
  then show ?case by simp
next
  case (Cons p ps)
  obtain o1 s1 where st: "processPage E pages r f p s = (o1, s1)"
    by (cases "processPage E pages r f p s")
  have p1: "prefix (audioSegments s) (audioSegments s1)"
    using st by (rule processPage_prefix)
  show ?case
  proof (cases o1)
    case Continue
    with Cons.prems st have "pagesLoop (processPage E pages r f) ps s1 = (outcome, s')"
      by simp
    then have "prefix (audioSegments s1) (audioSegments s')"
      by (rule Cons.IH)
    with p1 show ?thesis
      by (rule prefix_order.order_trans)
  next
    case Break
    with Cons.prems st p1 show ?thesis by simp
  next
    case (Throw e)
    with Cons.prems st p1 show ?thesis by simp
  qed
qed

lemma pagesLoop_Continue_isCancelled:
  "pagesLoop (processPage E pages r f) ps s = (Continue, s') \<Longrightarrow> \<not> isCancelled s \<Longrightarrow>
     \<not> isCancelled s'"
proof (induction ps arbitrary: s)
  case Nil
  then show ?case by simp
next
  case (Cons p ps)
  obtain o1 s1 where st: "processPage E pages r f p s = (o1, s1)"
    by (cases "processPage E pages r f p s")
  with Cons.prems(1) have c: "o1 = Continue"
    by (cases o1) simp_all
  with st have "\<not> isCancelled s1"
    by (simp add: processPage_Continue_isCancelled)
  moreover from Cons.prems(1) st c have "pagesLoop (processPage E pages r f) ps s1 = (Continue, s')"
    by simp
  ultimately show ?case
    using Cons.IH by blast
qed

lemma upt_split_at:
  "fromP \<le> p \<Longrightarrow> p \<le> toP \<Longrightarrow> [fromP..<Suc toP] = [fromP..<p] @ p # [Suc p..<Suc toP]"
proof -
  assume a: "fromP \<le> p" and b: "p \<le> toP"
  from b obtain k where k: "Suc toP = p + k" and "0 < k"
    by (metis le_imp_less_Suc less_imp_add_positive)
  from a have "[fromP..<p + k] = [fromP..<p] @ [p..<p + k]"
    by (rule upt_add_eq_append)
  moreover from \<open>0 < k\<close> have "[p..<p + k] = p # [Suc p..<p + k]"
    by (simp add: upt_conv_Cons)
  ultimately show ?thesis
    using k by simp
qed

text \<open>A run whose page \<open>p\<close> does not end normally stops there, with the playlist of the
  pages before \<open>p\<close>.\<close>

lemma generateLoop_halts_at:
  assumes "1 \<le> fromP" and "fromP \<le> p" and "p \<le> toP"
    and before: "generateLoop E pages r fromP (p - 1) s = (Continue, sp)"
    and page: "processPage E pages r fromP p sp = (outcome, s')"
    and halt: "outcome \<noteq> Continue"
  shows "generateLoop E pages r fromP toP s = (outcome, s')"
    and "audioSegments s' = audioSegments sp"
proof -
  from assms(1,2) have "Suc (p - 1) = p"
    by simp
  with before have b: "pagesLoop (processPage E pages r fromP) [fromP..<p] s = (Continue, sp)"
    by (simp add: generateLoop_def)
  have "[fromP..<Suc toP] = [fromP..<p] @ p # [Suc p..<Suc toP]"
    using assms(2,3) by (rule upt_split_at)
  with b page halt show "generateLoop E pages r fromP toP s = (outcome, s')"
    by (cases outcome) (simp_all add: generateLoop_def pagesLoop_append)
  from page halt show "audioSegments s' = audioSegments sp"
    by (rule processPage_halt_audioSegments)
qed

lemma beginGeneration_fields [simp]:
  "audioSegments (beginGeneration pages fromP toP s) = audioSegments s"
  "isCancelled (beginGeneration pages fromP toP s) = False"
  "progress (generationStatus (beginGeneration pages fromP toP s)) = 0"
  "total_pages (generationStatus (beginGeneration pages fromP toP s)) = toP - fromP + 1"
  by (simp_all add: beginGeneration_def Let_def)

lemma catchFinally_fields [simp]:
  "audioSegments (catchFinally (outcome, s)) = audioSegments s"
  "generationStatus (catchFinally (outcome, s)) = idleStatus"
  "isCancelled (catchFinally (outcome, s)) = False"
  by (simp_all add: catchFinally_def Let_def split: flow.splits)

lemma catchFinally_cancelled:
  "isCancelled s \<Longrightarrow>
     error (catchFinally (outcome, s)) = Some ''Audio generation was cancelled by the user.''"
  by (simp add: catchFinally_def Let_def split: flow.splits)

lemma catchFinally_thrown:
  "\<not> isCancelled s \<Longrightarrow> error (catchFinally (Throw e, s)) \<noteq> None"
  by (simp add: catchFinally_def Let_def)

lemma handleGenerate_valid:
  "1 \<le> fromP \<Longrightarrow> fromP \<le> toP \<Longrightarrow> toP \<le> length pages \<Longrightarrow>
     handleGenerate E pages (Some fromP) (Some toP) s =
       catchFinally (generateLoop E pages s fromP toP (beginGeneration pages fromP toP s))"
  by (simp add: handleGenerate_def Number_def Let_def)

lemma promiseAll_rejects:
  "\<exists>x\<in>set xs. isl (f x) \<Longrightarrow> isl (promiseAll f xs)"
proof (induction xs)
  case Nil
  then show ?case by simp
next
  case (Cons x xs)
  show ?case
  proof (cases "f x")
    case (Inl e)
    then show ?thesis by simp
  next
    case (Inr y)
    with Cons.prems have "\<exists>x\<in>set xs. isl (f x)"
      by auto
    then have "isl (promiseAll f xs)"
      by (rule Cons.IH)
    with Inr show ?thesis
      by (cases "promiseAll f xs") simp_all
  qed
qed

text \<open>A page with a failing request throws, or breaks when the run was stopped meanwhile.\<close>

lemma processPage_rejected:
  assumes "\<not> isCancelled s" and "1 \<le> p" and "p \<le> length pages"
    and "trim (pages ! (p - 1)) \<noteq> []"
    and "\<exists>chunk\<in>set (calculateChunks (pages ! (p - 1))). isl (generateSpeech E chunk)"
  shows "\<exists>e s'. processPage E pages r f p s = (Throw e, s')"
proof -
  from assms(5) have "isl (promiseAll (generateSpeech E) (calculateChunks (pages ! (p - 1))))"
    by (rule promiseAll_rejects)
  then obtain e where "promiseAll (generateSpeech E) (calculateChunks (pages ! (p - 1))) = Inl e"
    by (cases "promiseAll (generateSpeech E) (calculateChunks (pages ! (p - 1)))") simp_all
  then have "awaitAudioBuffers E (calculateChunks (pages ! (p - 1))) = Inl e"
    by (simp add: awaitAudioBuffers_def)
  with assms(1-4) show ?thesis
    by (simp add: processPage_def Let_def)
qed

lemma processPage_stopped:
  assumes "\<not> isCancelled s" and "1 \<le> p" and "p \<le> length pages"
    and "trim (pages ! (p - 1)) \<noteq> []"
    and "Stop \<in> set (during E p)"
  shows "\<exists>outcome s'. processPage E pages r f p s = (outcome, s') \<and> outcome \<noteq> Continue
    \<and> isCancelled s'"
  using assms
  by (auto simp: processPage_def Let_def events_isCancelled split: sum.splits)

lemma calculateChunks_nonempty:
  assumes "trim text \<noteq> []"
  shows "calculateChunks text \<noteq> []"
proof
  assume "calculateChunks text = []"
  then have "concat (calculateChunksWith MAX_CHARS_PER_REQUEST text) = []"
    by (simp add: calculateChunks_def)
  moreover have "0 < MAX_CHARS_PER_REQUEST"
    by (simp add: MAX_CHARS_PER_REQUEST_def)
  ultimately have c: "concat (getSentencesFromText text) = []"
    by (simp add: concat_calculateChunksWith)
  have "filter (\<lambda>c. \<not> isWhitespace c) text
      = filter (\<lambda>c. \<not> isWhitespace c) (concat (getSentencesFromText text))"
    by (simp only: getSentencesFromText_nonws)
  also have "\<dots> = []"
    unfolding c by simp
  finally have "trim text = []"
    by (simp add: trim_Nil_iff filter_empty_conv)
  with assms show False
    by simp
qed

lemma promiseAll_Inr_iff:
  "promiseAll f xs = Inr ys \<longleftrightarrow> list_all2 (\<lambda>x y. f x = Inr y) xs ys"
proof (induction xs arbitrary: ys)
  case Nil
  then show ?case by auto
next
  case (Cons x xs)
  show ?case
  proof (cases "f x")
    case (Inl e)
    then show ?thesis
      by (auto simp: list_all2_Cons1)
  next
    case (Inr y)
    show ?thesis
    proof (cases "promiseAll f xs")
      case (Inl e)
      with Cons.IH have "\<And>zs. \<not> list_all2 (\<lambda>x y. f x = Inr y) xs zs"
        by (metis sum.distinct(1))
      with Inl Inr show ?thesis
        by (auto simp: list_all2_Cons1)
    next
      case r: (Inr zs)
      with Cons.IH have "\<And>ws. list_all2 (\<lambda>x y. f x = Inr y) xs ws \<longleftrightarrow> ws = zs"
        by (metis sum.inject(2))
      with r Inr show ?thesis
        by (auto simp: list_all2_Cons1)
    qed
  qed
qed

lemma promiseAll_fulfils:
  assumes "\<forall>x\<in>set xs. \<not> isl (f x)"
  shows "\<exists>ys. promiseAll f xs = Inr ys"
proof (rule ccontr)
  assume "\<nexists>ys. promiseAll f xs = Inr ys"
  then obtain e where e: "promiseAll f xs = Inl e"
    by (cases "promiseAll f xs") auto
  from assms have "\<not> (\<exists>ys. promiseAll f xs = Inr ys) \<Longrightarrow> False"
  proof (induction xs)
    case Nil
    then show ?case by simp
  next
    case (Cons x xs)
    then obtain y where "f x = Inr y"
      by (cases "f x") auto
    with Cons show ?case
      by (cases "promiseAll f xs") auto
  qed
  with \<open>\<nexists>ys. promiseAll f xs = Inr ys\<close> show False
    by blast
qed

lemma decodeAudioData_mono:
  assumes "decodeAudioData bytes = Inr b"
  shows "numberOfChannels b = 1 \<and> length (channelData b) = 1 \<and> 0 < bufferLength b"
  using assms
  by (auto simp: decodeAudioData_def createBuffer_def Let_def split: if_splits)

lemma foldl_bufferLength_ge:
  "a \<le> foldl (\<lambda>acc buffer. acc + bufferLength buffer) a bs"
proof (induction bs arbitrary: a)
  case Nil
  then show ?case by simp
next
  case (Cons b bs)
  have "a \<le> a + bufferLength b"
    by simp
  also have "\<dots> \<le> foldl (\<lambda>acc buffer. acc + bufferLength buffer) (a + bufferLength b) bs"
    by (rule Cons.IH)
  finally show ?case
    by simp
qed

lemma concatAudioBuffers_mono:
  assumes "bs \<noteq> []"
    and "\<forall>b\<in>set bs. numberOfChannels b = 1 \<and> length (channelData b) = 1 \<and> 0 < bufferLength b"
  shows "\<exists>r. concatAudioBuffers bs = Inr r"
proof -
  obtain b rest where bs: "bs = b # rest"
    using assms(1) by (cases bs) auto
  with assms(2) have b: "numberOfChannels b = 1" "0 < bufferLength b"
    by simp_all
  have "bufferLength b \<le> foldl (\<lambda>acc buffer. acc + bufferLength buffer) (bufferLength b) rest"
    by (rule foldl_bufferLength_ge)
  with b have total: "0 < foldl (\<lambda>acc buffer. acc + bufferLength buffer) 0 bs"
    by (simp add: bs)
  have "\<forall>x\<in>set bs. \<not> isl (getChannelData x 0)"
    using assms(2) by (simp add: getChannelData_def)
  then obtain part where part: "promiseAll (\<lambda>buffer. getChannelData buffer 0) bs = Inr part"
    using promiseAll_fulfils [where f = "\<lambda>buffer. getChannelData buffer 0" and xs = bs] by blast
  have one: "numberOfChannels (bs ! 0) = 1"
    using b by (simp add: bs)
  show ?thesis
    using total part assms(1)
    by (simp add: concatAudioBuffers_def Let_def createBuffer_def one)
qed

lemma list_all2_right_source:
  "list_all2 P xs ys \<Longrightarrow> y \<in> set ys \<Longrightarrow> \<exists>x\<in>set xs. P x y"
  by (induction rule: list_all2_induct) auto

lemma awaitAudioBuffers_fulfils:
  assumes ok: "\<forall>chunk\<in>set chunks. synthesizes E chunk"
  shows "\<exists>bufs. awaitAudioBuffers E chunks = Inr bufs \<and> length bufs = length chunks
    \<and> (\<forall>b\<in>set bufs. numberOfChannels b = 1 \<and> length (channelData b) = 1 \<and> 0 < bufferLength b)"
proof -
  have "\<forall>chunk\<in>set chunks. \<not> isl (generateSpeech E chunk)"
    using ok by (auto simp: synthesizes_def isl_def split: sum.splits)
  then obtain b64s where b64s: "promiseAll (generateSpeech E) chunks = Inr b64s"
    using promiseAll_fulfils [where f = "generateSpeech E" and xs = chunks] by blast
  then have rel: "list_all2 (\<lambda>x y. generateSpeech E x = Inr y) chunks b64s"
    by (simp add: promiseAll_Inr_iff)
  have "\<forall>base64\<in>set b64s. \<not> isl (decodeChunk E base64)"
  proof
    fix base64 assume "base64 \<in> set b64s"
    with rel have "\<exists>chunk\<in>set chunks. generateSpeech E chunk = Inr base64"
      by (rule list_all2_right_source)
    then obtain chunk where "chunk \<in> set chunks" and "generateSpeech E chunk = Inr base64"
      by blast
    with ok show "\<not> isl (decodeChunk E base64)"
      by (auto simp: synthesizes_def)
  qed
  then obtain bufs where bufs: "promiseAll (decodeChunk E) b64s = Inr bufs"
    using promiseAll_fulfils [where f = "decodeChunk E" and xs = b64s] by blast
  then have rel2: "list_all2 (\<lambda>x y. decodeChunk E x = Inr y) b64s bufs"
    by (simp add: promiseAll_Inr_iff)
  have len: "length bufs = length chunks"
    using rel rel2 by (simp add: list_all2_lengthD)
  have mono: "\<forall>b\<in>set bufs. numberOfChannels b = 1 \<and> length (channelData b) = 1 \<and> 0 < bufferLength b"
  proof
    fix b assume "b \<in> set bufs"
    with rel2 have "\<exists>base64\<in>set b64s. decodeChunk E base64 = Inr b"
      by (rule list_all2_right_source)
    then obtain base64 where "decodeChunk E base64 = Inr b"
      by blast
    then obtain bytes where "decodeAudioData bytes = Inr b"
      by (auto simp: decodeChunk_def split: sum.splits)
    then show "numberOfChannels b = 1 \<and> length (channelData b) = 1 \<and> 0 < bufferLength b"
      by (rule decodeAudioData_mono)
  qed
  have "awaitAudioBuffers E chunks = Inr bufs"
    using b64s bufs by (simp add: awaitAudioBuffers_def)
  with len mono show ?thesis
    by blast
qed

lemma combineAudioBuffers_mono:
  assumes "bs \<noteq> []"
    and "\<forall>b\<in>set bs. numberOfChannels b = 1 \<and> length (channelData b) = 1 \<and> 0 < bufferLength b"
  shows "\<exists>r. combineAudioBuffers bs = Inr r"
  using concatAudioBuffers_mono [OF assms] by (simp add: combineAudioBuffers_def)

text \<open>A page whose requests all succeed, in a run that is not stopped meanwhile.\<close>

lemma processPage_succeeds:
  assumes nc: "\<not> isCancelled s" and p1: "1 \<le> p" and p2: "p \<le> length pages"
    and nonblank: "trim (pages ! (p - 1)) \<noteq> []"
    and ok: "\<forall>chunk\<in>set (calculateChunks (pages ! (p - 1))). synthesizes E chunk"
    and quiet: "Stop \<notin> set (during E p)"
  shows "\<exists>s' seg. processPage E pages r f p s = (Continue, s')
    \<and> audioSegments s' = audioSegments s @ [seg]
    \<and> pageRange seg = \<lparr>pageFrom = p, pageTo = p\<rparr>
    \<and> segText seg = pages ! (p - 1)
    \<and> progress (generationStatus s') = progress (generationStatus s) + 1
    \<and> total_pages (generationStatus s') = total_pages (generationStatus s)
    \<and> \<not> isCancelled s'"
proof -
  define ptext where "ptext = pages ! (p - 1)"
  define s1 where "s1 = s\<lparr>generationStatus := (generationStatus s)\<lparr>message := Processing p\<rparr>\<rparr>"
  define s2 where "s2 = foldl (\<lambda>st e. dispatch e st) s1 (during E p)"
  obtain bufs where bufs: "awaitAudioBuffers E (calculateChunks ptext) = Inr bufs"
    and len: "length bufs = length (calculateChunks ptext)"
    and mono: "\<forall>b\<in>set bufs. numberOfChannels b = 1 \<and> length (channelData b) = 1 \<and> 0 < bufferLength b"
    using awaitAudioBuffers_fulfils [OF ok] unfolding ptext_def by blast
  have "calculateChunks ptext \<noteq> []"
    unfolding ptext_def using nonblank by (rule calculateChunks_nonempty)
  with len have ne: "length bufs \<noteq> 0"
    by simp
  then have "bufs \<noteq> []"
    by simp
  then obtain combined where combined: "combineAudioBuffers bufs = Inr combined"
    using combineAudioBuffers_mono mono by blast
  have c2: "\<not> isCancelled s2"
    using nc quiet by (simp add: s2_def s1_def events_isCancelled)
  have g2: "generationStatus s2 = generationStatus s1"
    unfolding s2_def using quiet by (rule events_generationStatus)
  have a2: "audioSegments s2 = audioSegments s"
    by (simp add: s2_def s1_def)
  define s' where "s' = emitSegment E r f p ptext combined s2"
  have inrange: "\<not> (p = 0 \<or> length pages < p)"
    using p1 p2 by simp
  have "processPage E pages r f p s =
      (let textChunks = calculateChunks ptext
       in case awaitAudioBuffers E textChunks of
            Inl e \<Rightarrow> (Throw e, s2)
          | Inr audioBuffers \<Rightarrow>
              if isCancelled s2 then (Break, s2)
              else if length audioBuffers = 0 then (Continue, incProgress s2)
              else
                (case combineAudioBuffers audioBuffers of
                   Inl e \<Rightarrow> (Throw e, s2)
                 | Inr combinedAudioBuffer \<Rightarrow>
                     (Continue, emitSegment E r f p ptext combinedAudioBuffer s2)))"
    unfolding processPage_def Let_def s2_def s1_def ptext_def
    using nc inrange nonblank by (simp only: if_False if_True)
  also have "\<dots> = (Continue, s')"
    unfolding Let_def bufs s'_def using c2 ne combined by simp
  finally have run: "processPage E pages r f p s = (Continue, s')" .
  obtain seg where seg: "audioSegments s' = audioSegments s2 @ [seg]"
    "pageRange seg = \<lparr>pageFrom = p, pageTo = p\<rparr>" "segText seg = ptext"
    unfolding s'_def using emitSegment_fields(1) by blast
  have "progress (generationStatus s') = progress (generationStatus s) + 1"
    and "total_pages (generationStatus s') = total_pages (generationStatus s)"
    unfolding s'_def by (simp_all add: emitSegment_fields g2 s1_def)
  moreover have "\<not> isCancelled s'"
    unfolding s'_def using c2 by (simp add: emitSegment_fields)
  ultimately show ?thesis
    using run seg a2 unfolding ptext_def by auto
qed

lemma processPage_blank:
  assumes "\<not> isCancelled s" and "1 \<le> p" and "p \<le> length pages"
    and "trim (pages ! (p - 1)) = []"
  shows "\<exists>s'. processPage E pages r f p s = (Continue, s')
    \<and> audioSegments s' = audioSegments s
    \<and> progress (generationStatus s') = progress (generationStatus s) + 1
    \<and> total_pages (generationStatus s') = total_pages (generationStatus s)
    \<and> \<not> isCancelled s'"
  using assms by (simp add: processPage_def Let_def)

text \<open>
  Claim C4: if, in a run over a valid range, the pages before \<open>p\<close> were processed and a remote
  synthesis call for a chunk of page \<open>p\<close> fails, then the loop ends by a throw, the playlist is
  the one the pages before \<open>p\<close> left (no segment for page \<open>p\<close> or a later page, every earlier
  segment still there, the playlist from before the run a prefix of it), and the run is over.
\<close>

theorem synthesis_failure_halts_run:
  assumes "1 \<le> fromP" and "fromP \<le> p" and "p \<le> toP" and "toP \<le> length pages"
    and "fst (generateLoop E pages s fromP (p - 1) (beginGeneration pages fromP toP s)) = Continue"
    and "trim (pages ! (p - 1)) \<noteq> []"
    and "\<exists>chunk\<in>set (calculateChunks (pages ! (p - 1))). isl (generateSpeech E chunk)"
  shows "(\<exists>e. fst (generateLoop E pages s fromP toP (beginGeneration pages fromP toP s)) = Throw e)
    \<and> audioSegments (handleGenerate E pages (Some fromP) (Some toP) s)
        = audioSegments (snd (generateLoop E pages s fromP (p - 1) (beginGeneration pages fromP toP s)))
    \<and> prefix (audioSegments s) (audioSegments (handleGenerate E pages (Some fromP) (Some toP) s))
    \<and> generationStatus (handleGenerate E pages (Some fromP) (Some toP) s) = idleStatus
    \<and> error (handleGenerate E pages (Some fromP) (Some toP) s) \<noteq> None"
proof -
  let ?start = "beginGeneration pages fromP toP s"
  obtain sp where before: "generateLoop E pages s fromP (p - 1) ?start = (Continue, sp)"
    using assms(5) by (cases "generateLoop E pages s fromP (p - 1) ?start") simp
  then have "\<not> isCancelled sp"
    unfolding generateLoop_def by (rule pagesLoop_Continue_isCancelled) simp
  moreover have "1 \<le> p" and "p \<le> length pages"
    using assms(1-4) by simp_all
  ultimately obtain e s' where page: "processPage E pages s fromP p sp = (Throw e, s')"
    using processPage_rejected [OF _ _ _ assms(6) assms(7)] by blast
  have run: "generateLoop E pages s fromP toP ?start = (Throw e, s')"
    and same: "audioSegments s' = audioSegments sp"
    using generateLoop_halts_at [OF assms(1-3) before page] by simp_all
  have valid: "handleGenerate E pages (Some fromP) (Some toP) s = catchFinally (Throw e, s')"
    using assms(1-4) run by (simp add: handleGenerate_valid)
  have "prefix (audioSegments ?start) (audioSegments s')"
    using run unfolding generateLoop_def by (rule pagesLoop_prefix)
  then have pre: "prefix (audioSegments s) (audioSegments s')"
    by simp
  have err: "error (catchFinally (Throw e, s')) \<noteq> None"
    by (cases "isCancelled s'") (simp_all add: catchFinally_cancelled catchFinally_thrown)
  show ?thesis
    using run same before valid pre err by simp
qed

theorem synthesis_failure_halts_run_witness:
  "(\<exists>e. fst (generateLoop (exEnv exSpeechFailing 1000 exQuiet) exPages initialApp 1 2
            (beginGeneration exPages 1 2 initialApp)) = Throw e)
    \<and> audioSegments (handleGenerate (exEnv exSpeechFailing 1000 exQuiet) exPages (Some 1) (Some 2) initialApp)
        = audioSegments (snd (generateLoop (exEnv exSpeechFailing 1000 exQuiet) exPages initialApp 1 (2 - 1)
            (beginGeneration exPages 1 2 initialApp)))
    \<and> prefix (audioSegments initialApp)
        (audioSegments (handleGenerate (exEnv exSpeechFailing 1000 exQuiet) exPages (Some 1) (Some 2) initialApp))
    \<and> generationStatus (handleGenerate (exEnv exSpeechFailing 1000 exQuiet) exPages (Some 1) (Some 2) initialApp)
        = idleStatus
    \<and> error (handleGenerate (exEnv exSpeechFailing 1000 exQuiet) exPages (Some 1) (Some 2) initialApp) \<noteq> None"
proof -
  have range: "(1::nat) \<le> 1" "(1::nat) \<le> 2" "(2::nat) \<le> 2" "2 \<le> length exPages"
    by (simp_all add: exPages_def)
  have before: "fst (generateLoop (exEnv exSpeechFailing 1000 exQuiet) exPages initialApp 1 (2 - 1)
      (beginGeneration exPages 1 2 initialApp)) = Continue"
    by code_simp
  have nonblank: "trim (exPages ! (2 - 1)) \<noteq> []"
    by code_simp
  have fails: "\<exists>chunk\<in>set (calculateChunks (exPages ! (2 - 1))).
      isl (generateSpeech (exEnv exSpeechFailing 1000 exQuiet) chunk)"
    by code_simp
  show ?thesis
    by (rule synthesis_failure_halts_run [OF range before nonblank fails])
qed

text \<open>
  Claim C5, amended: if, in a run over a valid range, the pages before \<open>p\<close> were processed and
  the stop button is handled while the requests of page \<open>p\<close> are awaited, then the loop does
  not run to its end, the playlist is the one the pages before \<open>p\<close> left, the run is over,
  and the cancellation is reported through \<^verbatim>\<open>setError\<close>, that is, in the error banner.
\<close>

theorem cancellation_halts_run:
  assumes "1 \<le> fromP" and "fromP \<le> p" and "p \<le> toP" and "toP \<le> length pages"
    and "fst (generateLoop E pages s fromP (p - 1) (beginGeneration pages fromP toP s)) = Continue"
    and "trim (pages ! (p - 1)) \<noteq> []"
    and "Stop \<in> set (during E p)"
  shows "fst (generateLoop E pages s fromP toP (beginGeneration pages fromP toP s)) \<noteq> Continue
    \<and> audioSegments (handleGenerate E pages (Some fromP) (Some toP) s)
        = audioSegments (snd (generateLoop E pages s fromP (p - 1) (beginGeneration pages fromP toP s)))
    \<and> prefix (audioSegments s) (audioSegments (handleGenerate E pages (Some fromP) (Some toP) s))
    \<and> generationStatus (handleGenerate E pages (Some fromP) (Some toP) s) = idleStatus
    \<and> error (handleGenerate E pages (Some fromP) (Some toP) s)
        = Some ''Audio generation was cancelled by the user.''
    \<and> errorBanner (handleGenerate E pages (Some fromP) (Some toP) s)"
proof -
  let ?start = "beginGeneration pages fromP toP s"
  obtain sp where before: "generateLoop E pages s fromP (p - 1) ?start = (Continue, sp)"
    using assms(5) by (cases "generateLoop E pages s fromP (p - 1) ?start") simp
  then have "\<not> isCancelled sp"
    unfolding generateLoop_def by (rule pagesLoop_Continue_isCancelled) simp
  moreover have "1 \<le> p" and "p \<le> length pages"
    using assms(1-4) by simp_all
  ultimately obtain outcome s' where page: "processPage E pages s fromP p sp = (outcome, s')"
    and halt: "outcome \<noteq> Continue" and c: "isCancelled s'"
    using processPage_stopped [OF _ _ _ assms(6) assms(7)] by blast
  have run: "generateLoop E pages s fromP toP ?start = (outcome, s')"
    and same: "audioSegments s' = audioSegments sp"
    using generateLoop_halts_at [OF assms(1-3) before page halt] by simp_all
  have valid: "handleGenerate E pages (Some fromP) (Some toP) s = catchFinally (outcome, s')"
    using assms(1-4) run by (simp add: handleGenerate_valid)
  have "prefix (audioSegments ?start) (audioSegments s')"
    using run unfolding generateLoop_def by (rule pagesLoop_prefix)
  then have pre: "prefix (audioSegments s) (audioSegments s')"
    by simp
  show ?thesis
    using run same before valid pre halt catchFinally_cancelled [OF c, of outcome]
    by (simp add: errorBanner_def)
qed

theorem cancellation_halts_run_witness:
  "fst (generateLoop (exEnv exSpeech 1000 exStopOnPage2) exPages initialApp 1 2
        (beginGeneration exPages 1 2 initialApp)) \<noteq> Continue
    \<and> audioSegments (handleGenerate (exEnv exSpeech 1000 exStopOnPage2) exPages (Some 1) (Some 2) initialApp)
        = audioSegments (snd (generateLoop (exEnv exSpeech 1000 exStopOnPage2) exPages initialApp 1 (2 - 1)
            (beginGeneration exPages 1 2 initialApp)))
    \<and> prefix (audioSegments initialApp)
        (audioSegments (handleGenerate (exEnv exSpeech 1000 exStopOnPage2) exPages (Some 1) (Some 2) initialApp))
    \<and> generationStatus (handleGenerate (exEnv exSpeech 1000 exStopOnPage2) exPages (Some 1) (Some 2) initialApp)
        = idleStatus
    \<and> error (handleGenerate (exEnv exSpeech 1000 exStopOnPage2) exPages (Some 1) (Some 2) initialApp)
        = Some ''Audio generation was cancelled by the user.''
    \<and> errorBanner (handleGenerate (exEnv exSpeech 1000 exStopOnPage2) exPages (Some 1) (Some 2) initialApp)"
proof -
  have range: "(1::nat) \<le> 1" "(1::nat) \<le> 2" "(2::nat) \<le> 2" "2 \<le> length exPages"
    by (simp_all add: exPages_def)
  have before: "fst (generateLoop (exEnv exSpeech 1000 exStopOnPage2) exPages initialApp 1 (2 - 1)
      (beginGeneration exPages 1 2 initialApp)) = Continue"
    by code_simp
  have nonblank: "trim (exPages ! (2 - 1)) \<noteq> []"
    by code_simp
  have stop: "Stop \<in> set (during (exEnv exSpeech 1000 exStopOnPage2) 2)"
    by code_simp
  show ?thesis
    by (rule cancellation_halts_run [OF range before nonblank stop])
qed

text \<open>
  Claim C5, as the code has it: a run over two pages, stopped while page 2 is awaited, ends with
  the error banner showing the cancellation message.
\<close>

theorem cancellation_error_banner_counterexample:
  "errorBanner (handleGenerate (exEnv exSpeech 1000 exStopOnPage2) exPages (Some 1) (Some 2) initialApp)
    \<and> error (handleGenerate (exEnv exSpeech 1000 exStopOnPage2) exPages (Some 1) (Some 2) initialApp)
        = Some ''Audio generation was cancelled by the user.''"
  by code_simp

text \<open>
  Claim C8: in a book of at least five pages whose pages 3 and 5 have text and whose page 4 is
  empty or whitespace, a run over the range 3 to 5 whose requests succeed and that is not
  stopped leaves the loop at its end with exactly two segments appended to the playlist,
  tagged with the page ranges 3 to 3 and 5 to 5, and with the progress at 3, the total of
  the run.
\<close>

theorem empty_page_counts_without_segment:
  assumes "5 \<le> length pages"
    and "trim (pages ! 2) \<noteq> []" and "trim (pages ! 3) = []" and "trim (pages ! 4) \<noteq> []"
    and "\<forall>chunk\<in>set (calculateChunks (pages ! 2)). synthesizes E chunk"
    and "\<forall>chunk\<in>set (calculateChunks (pages ! 4)). synthesizes E chunk"
    and "Stop \<notin> set (during E 3)" and "Stop \<notin> set (during E 5)"
  shows "\<exists>seg3 seg5 s'.
      generateLoop E pages s 3 5 (beginGeneration pages 3 5 s) = (Continue, s')
    \<and> audioSegments s' = audioSegments s @ [seg3, seg5]
    \<and> pageRange seg3 = \<lparr>pageFrom = 3, pageTo = 3\<rparr>
    \<and> pageRange seg5 = \<lparr>pageFrom = 5, pageTo = 5\<rparr>
    \<and> progress (generationStatus s') = 3
    \<and> total_pages (generationStatus s') = 3
    \<and> audioSegments (handleGenerate E pages (Some 3) (Some 5) s) = audioSegments s @ [seg3, seg5]"
proof -
  let ?body = "processPage E pages s 3"
  let ?s0 = "beginGeneration pages 3 5 s"
  have n3: "trim (pages ! (3 - 1)) \<noteq> []" and n4: "trim (pages ! (4 - 1)) = []"
    and n5: "trim (pages ! (5 - 1)) \<noteq> []"
    using assms(2-4) by simp_all
  have ok3: "\<forall>chunk\<in>set (calculateChunks (pages ! (3 - 1))). synthesizes E chunk"
    and ok5: "\<forall>chunk\<in>set (calculateChunks (pages ! (5 - 1))). synthesizes E chunk"
    using assms(5,6) by simp_all
  have len: "3 \<le> length pages" "4 \<le> length pages" "5 \<le> length pages"
    using assms(1) by simp_all
  have c0: "\<not> isCancelled ?s0"
    by simp
  obtain s3 seg3 where r3: "?body 3 ?s0 = (Continue, s3)"
    and a3: "audioSegments s3 = audioSegments ?s0 @ [seg3]"
    and pr3: "pageRange seg3 = \<lparr>pageFrom = 3, pageTo = 3\<rparr>"
    and p3: "progress (generationStatus s3) = progress (generationStatus ?s0) + 1"
    and t3: "total_pages (generationStatus s3) = total_pages (generationStatus ?s0)"
    and c3: "\<not> isCancelled s3"
    using processPage_succeeds [OF c0 _ len(1) n3 ok3 assms(7), of s 3] by auto
  obtain s4 where r4: "?body 4 s3 = (Continue, s4)"
    and a4: "audioSegments s4 = audioSegments s3"
    and p4: "progress (generationStatus s4) = progress (generationStatus s3) + 1"
    and t4: "total_pages (generationStatus s4) = total_pages (generationStatus s3)"
    and c4: "\<not> isCancelled s4"
    using processPage_blank [OF c3 _ len(2) n4, of E s 3] by auto
  obtain s5 seg5 where r5: "?body 5 s4 = (Continue, s5)"
    and a5: "audioSegments s5 = audioSegments s4 @ [seg5]"
    and pr5: "pageRange seg5 = \<lparr>pageFrom = 5, pageTo = 5\<rparr>"
    and p5: "progress (generationStatus s5) = progress (generationStatus s4) + 1"
    and t5: "total_pages (generationStatus s5) = total_pages (generationStatus s4)"
    using processPage_succeeds [OF c4 _ len(3) n5 ok5 assms(8), of s 3] by auto
  have range: "[3..<Suc 5] = [3, 4, 5]"
    by (simp add: upt_rec)
  have run: "generateLoop E pages s 3 5 ?s0 = (Continue, s5)"
    unfolding generateLoop_def range using r3 r4 r5 by simp
  have playlist: "audioSegments s5 = audioSegments s @ [seg3, seg5]"
    using a3 a4 a5 by simp
  have prog: "progress (generationStatus s5) = 3" and tot: "total_pages (generationStatus s5) = 3"
    using p3 p4 p5 t3 t4 t5 by simp_all
  have "handleGenerate E pages (Some 3) (Some 5) s = catchFinally (Continue, s5)"
    using assms(1) run by (simp add: handleGenerate_valid)
  then have final: "audioSegments (handleGenerate E pages (Some 3) (Some 5) s) = audioSegments s @ [seg3, seg5]"
    using playlist by simp
  show ?thesis
    using run playlist pr3 pr5 prog tot final by blast
qed

theorem empty_page_counts_without_segment_witness:
  "map pageRange (audioSegments
      (handleGenerate (exEnv exSpeech 1000 exQuiet) exFivePages (Some 3) (Some 5) initialApp))
    = [\<lparr>pageFrom = 3, pageTo = 3\<rparr>, \<lparr>pageFrom = 5, pageTo = 5\<rparr>]"
proof -
  have h1: "5 \<le> length exFivePages"
    by (simp add: exFivePages_def)
  have h2: "trim (exFivePages ! 2) \<noteq> []" and h3: "trim (exFivePages ! 3) = []"
    and h4: "trim (exFivePages ! 4) \<noteq> []"
    by code_simp+
  have h5: "\<forall>chunk\<in>set (calculateChunks (exFivePages ! 2)).
      synthesizes (exEnv exSpeech 1000 exQuiet) chunk"
    by code_simp
  have h6: "\<forall>chunk\<in>set (calculateChunks (exFivePages ! 4)).
      synthesizes (exEnv exSpeech 1000 exQuiet) chunk"
    by code_simp
  have h7: "Stop \<notin> set (during (exEnv exSpeech 1000 exQuiet) 3)"
    and h8: "Stop \<notin> set (during (exEnv exSpeech 1000 exQuiet) 5)"
    by (simp_all add: exEnv_def exQuiet_def)
  from empty_page_counts_without_segment [OF h1 h2 h3 h4 h5 h6 h7 h8, of initialApp]
  obtain seg3 seg5 where
    "audioSegments (handleGenerate (exEnv exSpeech 1000 exQuiet) exFivePages (Some 3) (Some 5) initialApp)
      = audioSegments initialApp @ [seg3, seg5]"
    and "pageRange seg3 = \<lparr>pageFrom = 3, pageTo = 3\<rparr>"
    and "pageRange seg5 = \<lparr>pageFrom = 5, pageTo = 5\<rparr>"
    by blast
  then show ?thesis
    by (simp add: initialApp_def)
qed

text \<open>
  The parts of claim C10 that hold on the code: the segment of a page other than the first of
  the range selects nothing, a blank page selects nothing, and the segment of the first page
  is selected and played when nothing was selected or playing in the render that started
  the run.
\<close>

lemma emitSegment_later_page:
  "p \<noteq> f \<Longrightarrow>
     currentSegment (emitSegment E r f p ptext buf s) = currentSegment s
     \<and> isPlaying (emitSegment E r f p ptext buf s) = isPlaying s"
  by (simp add: emitSegment_def Let_def incProgress_def)

lemma processPage_blank_selection:
  "trim (pages ! (p - 1)) = [] \<Longrightarrow> processPage E pages r f p s = (outcome, s') \<Longrightarrow>
     currentSegment s' = currentSegment s \<and> isPlaying s' = isPlaying s"
  by (auto simp: processPage_def Let_def incProgress_def split: if_splits)

lemma emitSegment_first_page:
  "\<not> isPlaying r \<Longrightarrow> currentSegment r = None \<Longrightarrow>
     isPlaying (emitSegment E r f f ptext buf s)
     \<and> map_option pageRange (currentSegment (emitSegment E r f f ptext buf s))
         = Some \<lparr>pageFrom = f, pageTo = f\<rparr>"
  by (simp add: emitSegment_def Let_def incProgress_def handleAutoplayFirstSegment_def)

text \<open>
  Claim C10, on the code. A first run over pages 1 to 2 of a book whose page 1 is blank
  leaves one segment (page 2) in the playlist and nothing selected. A second run, over page
  2, is started; while its request is awaited the user starts playing the segment of the
  first run, so at the moment the new segment is ready a segment is selected and playing.
  The callback that \<^verbatim>\<open>handleGenerate\<close> calls tests the state of the render in which the run
  was started, where nothing was selected: the new segment replaces the one being played.
\<close>

theorem autoplay_tests_stale_state:
  "audioSegments exAfterFirstRun = [exSegmentA]
    \<and> currentSegment exAfterFirstRun = None
    \<and> \<not> isPlaying exAfterFirstRun
    \<and> currentSegment (dispatch (PlaybackRequest exSegmentA) exAfterFirstRun) = Some exSegmentA
    \<and> isPlaying (dispatch (PlaybackRequest exSegmentA) exAfterFirstRun)
    \<and> map_option segId (currentSegment
          (handleGenerate (exEnv exSpeech 2000 exPlayOnPage2) exBlankFirst (Some 2) (Some 2)
             exAfterFirstRun)) = Some (2000, 2)
    \<and> isPlaying (handleGenerate (exEnv exSpeech 2000 exPlayOnPage2) exBlankFirst (Some 2) (Some 2)
          exAfterFirstRun)"
  by code_simp

section \<open>Properties of the double arithmetic\<close>

text \<open>
  \<open>exponentOf\<close> is the binary exponent, \<open>roundTiesToEven\<close> is within one half of its
  argument, and so \<open>fl64 x\<close> is within half a unit in the last place of \<open>x\<close>.
\<close>

lemma bitlen_pos: "0 < n \<Longrightarrow> 0 < bitlen n"
  using bitlen_nonneg [of "n div 2"] by (subst compute_bitlen) simp

lemma pow2_exponentOf:
  assumes "0 < a"
  shows "pow2 (exponentOf a) \<le> a \<and> a < pow2 (exponentOf a + 1)"
proof (cases "1 \<le> a")
  case True
  define n where "n = \<lfloor>a\<rfloor>"
  have n: "0 < n" "of_int n \<le> a" "a < of_int n + 1"
    using True by (simp_all add: n_def)
  define b where "b = bitlen n"
  have b: "0 < b"
    unfolding b_def using n(1) by (rule bitlen_pos)
  have bounds: "2 ^ nat (b - 1) \<le> n \<and> n < 2 ^ nat b"
    unfolding b_def using n(1) by (rule bitlen_bounds)
  have e: "exponentOf a = b - 1"
    using True by (simp add: exponentOf_def b_def n_def)
  have "(2::real) ^ nat (b - 1) \<le> of_int n"
    using bounds by (metis of_int_le_iff of_int_numeral of_int_power)
  moreover have "of_int n + 1 \<le> (2::real) ^ nat b"
  proof -
    from bounds have "n + 1 \<le> 2 ^ nat b"
      by simp
    then have "of_int (n + 1) \<le> (of_int (2 ^ nat b) :: real)"
      by (simp only: of_int_le_iff)
    then show ?thesis
      by simp
  qed
  moreover have "pow2 (exponentOf a) = 2 ^ nat (b - 1)"
    and "pow2 (exponentOf a + 1) = 2 ^ nat b"
    using b by (simp_all add: e pow2_def)
  ultimately show ?thesis
    using n by linarith
next
  case False
  define y where "y = 1 / a"
  have y: "1 < y"
    using False assms by (simp add: y_def)
  define m where "m = \<lceil>y\<rceil>"
  have m: "y \<le> of_int m" "of_int m - 1 < y"
    unfolding m_def by linarith+
  with y have m1: "0 < m - 1"
    by linarith
  define b where "b = bitlen (m - 1)"
  have b: "0 < b"
    unfolding b_def using m1 by (rule bitlen_pos)
  have bounds: "2 ^ nat (b - 1) \<le> m - 1 \<and> m - 1 < 2 ^ nat b"
    unfolding b_def using m1 by (rule bitlen_bounds)
  have e: "exponentOf a = - b"
    using False by (simp add: exponentOf_def b_def m_def y_def)
  have up: "y \<le> 2 ^ nat b"
  proof -
    from bounds have "m \<le> 2 ^ nat b"
      by simp
    then have "of_int m \<le> (of_int (2 ^ nat b) :: real)"
      by (simp only: of_int_le_iff)
    moreover have "(of_int (2 ^ nat b) :: real) = 2 ^ nat b"
      by simp
    ultimately show ?thesis
      using m(1) by linarith
  qed
  have low: "2 ^ nat (b - 1) < y"
  proof -
    from bounds have "of_int (2 ^ nat (b - 1)) \<le> (of_int (m - 1) :: real)"
      by (simp only: of_int_le_iff)
    moreover have "(of_int (2 ^ nat (b - 1)) :: real) = 2 ^ nat (b - 1)"
      and "(of_int (m - 1) :: real) = of_int m - 1"
      by simp_all
    ultimately show ?thesis
      using m(2) by linarith
  qed
  have a: "a = 1 / y"
    using assms by (simp add: y_def)
  have "1 / 2 ^ nat b \<le> a"
    unfolding a using up y by (simp add: frac_le)
  moreover have "a < 1 / 2 ^ nat (b - 1)"
    unfolding a using low y by (simp add: frac_less2)
  moreover have "pow2 (exponentOf a + 1) = 1 / 2 ^ nat (b - 1)"
    using b by (cases "b = 1") (simp_all add: e pow2_def)
  moreover have "pow2 (exponentOf a) = 1 / 2 ^ nat b"
    using b by (simp add: e pow2_def)
  ultimately show ?thesis
    by linarith
qed

lemma roundTiesToEven_nearest: "\<bar>of_int (roundTiesToEven y) - y\<bar> \<le> 1 / 2"
  unfolding roundTiesToEven_def Let_def by (auto; linarith)

lemma pow2_pos: "0 < pow2 e"
  by (simp add: pow2_def)

lemma fl64_nearest:
  "\<bar>fl64 x - x\<bar> \<le> pow2 (max (exponentOf \<bar>x\<bar>) (- 1022) - 52) / 2"
proof (cases "x = 0")
  case True
  then show ?thesis
    using pow2_pos [of "max (exponentOf \<bar>x\<bar>) (- 1022) - 52"] by (simp add: fl64_def)
next
  case False
  define u where "u = pow2 (max (exponentOf \<bar>x\<bar>) (- 1022) - 52)"
  have u: "0 < u"
    unfolding u_def by (rule pow2_pos)
  have "fl64 x - x = (of_int (roundTiesToEven (x / u)) - x / u) * u"
    using False u by (simp add: fl64_def Let_def u_def [symmetric] algebra_simps)
  then have "\<bar>fl64 x - x\<bar> = \<bar>of_int (roundTiesToEven (x / u)) - x / u\<bar> * u"
    using u by (simp add: abs_mult)
  also have "\<dots> \<le> 1 / 2 * u"
    using u roundTiesToEven_nearest [of "x / u"] by (intro mult_right_mono) simp_all
  finally show ?thesis
    by (simp add: u_def)
qed

text \<open>
  The literal \<^verbatim>\<open>0.1\<close> is a double above one tenth, and \<^verbatim>\<open>0.25 - 0.1\<close> is the double
  \<^verbatim>\<open>0.15\<close>, below \<open>1 / 4 - 1 / 10\<close>: on a segment of a quarter of a second, a source that
  ends with the clock at the double \<^verbatim>\<open>0.15\<close> passes the completion test.
\<close>

lemma fl64_tenth: "fl64 (1 / 10) = 3602879701896397 / 36028797018963968"
  by code_simp

lemma completion_test_is_rounded:
  "fsub (1 / 4) (fl64 (1 / 10)) = fl64 (3 / 20) \<and> fl64 (3 / 20) < 1 / 4 - 1 / 10
    \<and> hasCompleted (fl64 (3 / 20)) (1 / 4) initialApp"
  by code_simp

text \<open>
  The positions of the examples are computed without rounding error, and the threshold of
  the completion test of a segment of 10 seconds is the double \<^verbatim>\<open>9.9\<close>.
\<close>

lemma position_at_2: "fadd 0 (fmul (fsub 2 0) 1) = 2" "fadd 0 (fmul (fsub 2 0) 2) = 4"
  by code_simp+

lemma position_at_4: "fadd 0 (fmul (fsub 4 0) 1) = 4"
  by code_simp

lemma position_at_159_16: "fadd 0 (fmul (fsub (159 / 16) 0) 1) = 159 / 16"
  by code_simp

lemma position_at_10: "fadd 0 (fmul (fsub 10 0) 1) = 10"
  by code_simp

lemma threshold_of_10: "fsub 10 (fl64 (1 / 10)) = 5573204538870989 / 562949953421312"
  by code_simp

lemma duration_of_10: "fdiv 240000 24000 = 10"
  by code_simp

section \<open>Properties of the playback engine\<close>

lemma bufferDuration_exAudio10: "bufferDuration exAudio10 = 10"
  by (simp add: bufferDuration_def exAudio10_def duration_of_10)

text \<open>The example state is the one the engine reaches from the initial state when the user plays
  the only segment of the playlist: the click, then two rounds of effects.\<close>

lemma exPlaying_reached:
  "runEffects (handlePlaybackRequest exTrack1 (initialApp\<lparr>audioSegments := [exTrack1]\<rparr>)) 0
     (runEffects (initialApp\<lparr>audioSegments := [exTrack1]\<rparr>) 0
        (handlePlaybackRequest exTrack1 (initialApp\<lparr>audioSegments := [exTrack1]\<rparr>)))
   = exPlaying [exTrack1] exTrack1"
  by (simp add: runEffects_def handlePlaybackRequest_def initialApp_def playbackEffect_def
      segmentEffect_def cleanupAudio_def exPlaying_def Let_def exTrack1_def
      bufferDuration_exAudio10)

text \<open>
  Claim C2, on the code. A segment of 10 seconds plays from offset 0, anchored at clock time
  0, at rate 1. At clock time 2 the reported position is 2. The rate is set to 2 at that
  instant: the effect on the rate only sets the rate of the source node, the anchor and the
  start offset stay, and the next tick, at the same clock time, reports position 4.
\<close>

theorem rate_change_jumps:
  "currentTime (tick 2 (exPlaying [exTrack1] exTrack1)) = 2
    \<and> currentTime (tick 2 (runEffects (exPlaying [exTrack1] exTrack1) 2
          (handlePlaybackRateChange 2 (exPlaying [exTrack1] exTrack1)))) = 4"
  by (simp add: tick_def runEffects_def handlePlaybackRateChange_def rateEffect_def
      exPlaying_def initialApp_def Let_def position_at_2)


theorem rate_change_jumps_witness:
  "currentTime (tick 2 (runEffects (exPlaying [exTrack1] exTrack1) 2
        (handlePlaybackRateChange 2 (exPlaying [exTrack1] exTrack1))))
    \<noteq> currentTime (tick 2 (exPlaying [exTrack1] exTrack1))"
  using rate_change_jumps by simp

text \<open>
  Claim C3, as the code has it. The only segment of the playlist, 10 seconds long, plays at
  rate 1 from offset 0 and its source ends when the computed position is 9.9375, which
  passes the completion test: the engine pauses, with the position at 9.9375 and not at the
  duration.
\<close>

theorem natural_end_not_pinned_counterexample:
  "hasCompleted (159 / 16) 10 (tick (159 / 16) (exPlaying [exTrack1] exTrack1))
    \<and> \<not> isPlaying (runEffects (exPlaying [exTrack1] exTrack1) (159 / 16)
          (onended (159 / 16) (tick (159 / 16) (exPlaying [exTrack1] exTrack1))))
    \<and> duration (runEffects (exPlaying [exTrack1] exTrack1) (159 / 16)
          (onended (159 / 16) (tick (159 / 16) (exPlaying [exTrack1] exTrack1)))) = 10
    \<and> startOffset (runEffects (exPlaying [exTrack1] exTrack1) (159 / 16)
          (onended (159 / 16) (tick (159 / 16) (exPlaying [exTrack1] exTrack1)))) = 159 / 16
    \<and> currentTime (runEffects (exPlaying [exTrack1] exTrack1) (159 / 16)
          (onended (159 / 16) (tick (159 / 16) (exPlaying [exTrack1] exTrack1)))) = 159 / 16"
  by (simp add: tick_def onended_def hasCompleted_def finalTime_def handleTrackEnd_def
      runEffects_def playbackEffect_def cleanupAudio_def exPlaying_def initialApp_def Let_def
      exTrack1_def position_at_159_16 threshold_of_10)

text \<open>
  Claim C3, amended. When the source of the playing segment ends and the completion test of
  the handler holds (the position computed from the clock is at least the duration less
  0.1, in the arithmetic of the program): if a segment follows the current one in the
  playlist, it is selected and \<open>isPlaying\<close> stays true; otherwise the engine pauses as the
  pause button would at that moment: the segment stays selected, the source is released,
  and the position stored is the position computed from the clock at the pause, clamped to
  the duration: the duration when the computed position has reached it, and less
  otherwise. A source that ends while the test fails only pauses, and a pause by the user
  keeps the current segment and removes the source with its handler, so that its end does
  nothing.
\<close>

theorem natural_end_advances_or_pauses:
  assumes src: "sourceNode s = Some src"
    and cur: "currentSegment s = Some cur" and playing: "isPlaying s" and ctx: "audioContext s"
    and ended: "hasCompleted now (srcDuration src) s"
  shows "(\<forall>i. findIndex (\<lambda>x. Some (segId x) = Some (segId cur)) (audioSegments s) = Some i
            \<and> i + 1 < length (audioSegments s)
          \<longrightarrow> currentSegment (onended now s) = Some (audioSegments s ! (i + 1))
            \<and> isPlaying (onended now s))
    \<and> ((\<forall>i. findIndex (\<lambda>x. Some (segId x) = Some (segId cur)) (audioSegments s) = Some i
            \<longrightarrow> i + 1 = length (audioSegments s))
          \<longrightarrow> \<not> isPlaying (onended now s)
            \<and> currentSegment (onended now s) = Some cur
            \<and> runEffects s now' (onended now s) = runEffects s now' (handleMainPlayPause False s)
            \<and> \<not> isPlaying (runEffects s now' (onended now s))
            \<and> currentSegment (runEffects s now' (onended now s)) = Some cur
            \<and> sourceNode (runEffects s now' (onended now s)) = None
            \<and> startOffset (runEffects s now' (onended now s))
                = min (finalTime now' s) (duration s)
            \<and> startOffset (runEffects s now' (onended now s)) \<le> duration s)
    \<and> (\<not> hasCompleted t (srcDuration src) s
          \<longrightarrow> currentSegment (onended t s) = Some cur \<and> \<not> isPlaying (onended t s))
    \<and> currentSegment (runEffects s now (handleMainPlayPause False s)) = Some cur
    \<and> \<not> isPlaying (runEffects s now (handleMainPlayPause False s))
    \<and> onended now' (runEffects s now (handleMainPlayPause False s))
        = runEffects s now (handleMainPlayPause False s)"
proof (intro conjI allI impI)
  fix i
  assume "findIndex (\<lambda>x. Some (segId x) = Some (segId cur)) (audioSegments s) = Some i
    \<and> i + 1 < length (audioSegments s)"
  then have next_one: "handleTrackEnd s = s\<lparr>currentSegment := Some (audioSegments s ! (i + 1))\<rparr>"
    using cur by (simp add: handleTrackEnd_def Let_def)
  have fire: "onended now s = handleTrackEnd s"
    using src ended by (simp add: onended_def)
  show "currentSegment (onended now s) = Some (audioSegments s ! (i + 1))"
    unfolding fire next_one by simp
  show "isPlaying (onended now s)"
    unfolding fire next_one using playing by simp
next
  assume last: "\<forall>i. findIndex (\<lambda>x. Some (segId x) = Some (segId cur)) (audioSegments s) = Some i
    \<longrightarrow> i + 1 = length (audioSegments s)"
  have fire: "onended now s = handleTrackEnd s"
    using src ended by (simp add: onended_def)
  have stop: "handleTrackEnd s = s\<lparr>isPlaying := False\<rparr>"
    using cur last by (auto simp: handleTrackEnd_def Let_def split: option.splits)
  have pause: "handleMainPlayPause False s = s\<lparr>isPlaying := False\<rparr>"
    using cur by (simp add: handleMainPlayPause_def)
  have eff: "runEffects s now' (s\<lparr>isPlaying := False\<rparr>)
      = cleanupAudio (s\<lparr>isPlaying := False, startOffset := min (finalTime now' s) (duration s)\<rparr>)"
    using src cur playing ctx
    by (simp add: runEffects_def playbackEffect_def Let_def cleanupAudio_def finalTime_def)
  show "\<not> isPlaying (onended now s)" and "currentSegment (onended now s) = Some cur"
    unfolding fire stop using cur by simp_all
  show "runEffects s now' (onended now s) = runEffects s now' (handleMainPlayPause False s)"
    unfolding fire stop pause by (rule refl)
  show "\<not> isPlaying (runEffects s now' (onended now s))"
    and "currentSegment (runEffects s now' (onended now s)) = Some cur"
    and "sourceNode (runEffects s now' (onended now s)) = None"
    and "startOffset (runEffects s now' (onended now s)) = min (finalTime now' s) (duration s)"
    and "startOffset (runEffects s now' (onended now s)) \<le> duration s"
    unfolding fire stop eff using cur by (simp_all add: cleanupAudio_def)
next
  assume early: "\<not> hasCompleted t (srcDuration src) s"
  then have "onended t s = s\<lparr>isPlaying := False\<rparr>"
    using src by (simp add: onended_def)
  then show "currentSegment (onended t s) = Some cur" and "\<not> isPlaying (onended t s)"
    using cur by simp_all
next
  have pause: "handleMainPlayPause False s = s\<lparr>isPlaying := False\<rparr>"
    using cur by (simp add: handleMainPlayPause_def)
  have eff: "runEffects s now (s\<lparr>isPlaying := False\<rparr>)
      = cleanupAudio (s\<lparr>isPlaying := False, startOffset := min (finalTime now s) (duration s)\<rparr>)"
    using src cur playing ctx
    by (simp add: runEffects_def playbackEffect_def Let_def cleanupAudio_def finalTime_def)
  show "currentSegment (runEffects s now (handleMainPlayPause False s)) = Some cur"
    and "\<not> isPlaying (runEffects s now (handleMainPlayPause False s))"
    and "onended now' (runEffects s now (handleMainPlayPause False s))
      = runEffects s now (handleMainPlayPause False s)"
    unfolding pause eff using cur by (simp_all add: cleanupAudio_def onended_def)
qed

theorem natural_end_advances_or_pauses_witness:
  "currentSegment (onended 10 (exPlaying [exTrack1, exTrack2] exTrack1)) = Some exTrack2
    \<and> isPlaying (onended 10 (exPlaying [exTrack1, exTrack2] exTrack1))"
proof -
  let ?s = "exPlaying [exTrack1, exTrack2] exTrack1"
  let ?src = "\<lparr>srcBuffer = audio exTrack1, srcPlaybackRate = 1, srcOffset = 0, srcDuration = 10\<rparr>"
  have h1: "sourceNode ?s = Some ?src"
    and h3: "currentSegment ?s = Some exTrack1" and h4: "isPlaying ?s" and h5: "audioContext ?s"
    by (simp_all add: exPlaying_def initialApp_def)
  have h8: "hasCompleted 10 (srcDuration ?src) ?s"
    by (simp add: hasCompleted_def finalTime_def exPlaying_def initialApp_def position_at_10
        threshold_of_10)
  have found: "findIndex (\<lambda>x. Some (segId x) = Some (segId exTrack1)) (audioSegments ?s) = Some 0
      \<and> 0 + 1 < length (audioSegments ?s)"
    by (simp add: exPlaying_def initialApp_def)
  from natural_end_advances_or_pauses [OF h1 h3 h4 h5 h8, of 5 5]
  have "\<forall>i. findIndex (\<lambda>x. Some (segId x) = Some (segId exTrack1)) (audioSegments ?s) = Some i
          \<and> i + 1 < length (audioSegments ?s)
        \<longrightarrow> currentSegment (onended 10 ?s) = Some (audioSegments ?s ! (i + 1))
          \<and> isPlaying (onended 10 ?s)"
    by (rule conjunct1)
  with found have "currentSegment (onended 10 ?s) = Some (audioSegments ?s ! (0 + 1))
      \<and> isPlaying (onended 10 ?s)"
    by blast
  moreover have "audioSegments ?s ! (0 + 1) = exTrack2"
    by (simp add: exPlaying_def initialApp_def)
  ultimately show ?thesis
    by simp
qed

text \<open>
  Claim C6, as the code has it: \<^verbatim>\<open>handleSeek\<close> stores the time it is given. On a paused
  segment of 10 seconds, seeking to 15 gives the position 15, and seeking to -1 gives -1.
\<close>

theorem seek_not_clamped_counterexample:
  "\<not> isPlaying exPaused \<and> duration exPaused = 10
    \<and> currentTime (handleSeek 15 exPaused) = 15
    \<and> startOffset (handleSeek 15 exPaused) = 15
    \<and> currentTime (handleSeek 15 exPaused) \<noteq> min (max 15 0) (duration exPaused)
    \<and> currentTime (handleSeek (- 1) exPaused) \<noteq> min (max (- 1) 0) (duration exPaused)"
  by (simp add: exPaused_def handleSeek_def runEffects_def handleMainPlayPause_def
      playbackEffect_def cleanupAudio_def exPlaying_def initialApp_def Let_def position_at_4)

text \<open>
  Claim C6, amended: \<^verbatim>\<open>handleSeek(t)\<close> sets the start offset and the reported position to
  \<open>t\<close> itself, whatever had elapsed; while paused no effect runs after it, so the position
  read next is \<open>t\<close>; and for \<open>t\<close> between 0 and the duration (the range of the slider) that
  is the clamped value of \<open>t\<close>.
\<close>

theorem seek_sets_position:
  assumes "audioContext s"
  shows "startOffset (handleSeek t s) = t
    \<and> currentTime (handleSeek t s) = t
    \<and> (\<not> isPlaying s \<longrightarrow> runEffects s now (handleSeek t s) = handleSeek t s)
    \<and> (0 \<le> t \<and> t \<le> duration s \<longrightarrow>
          currentTime (handleSeek t s) = min (max t 0) (duration s)
          \<and> startOffset (handleSeek t s) = min (max t 0) (duration s))"
  using assms by (simp add: handleSeek_def runEffects_def Let_def)

theorem seek_sets_position_witness:
  "startOffset (handleSeek 7 exPaused) = 7
    \<and> currentTime (handleSeek 7 exPaused) = 7
    \<and> runEffects exPaused 5 (handleSeek 7 exPaused) = handleSeek 7 exPaused
    \<and> currentTime (handleSeek 7 exPaused) = min (max 7 0) (duration exPaused)
    \<and> startOffset (handleSeek 7 exPaused) = min (max 7 0) (duration exPaused)"
proof -
  have ctx: "audioContext exPaused" and paused: "\<not> isPlaying exPaused"
    and inside: "0 \<le> (7::real) \<and> 7 \<le> duration exPaused"
    by (simp_all add: exPaused_def runEffects_def handleMainPlayPause_def
        playbackEffect_def cleanupAudio_def exPlaying_def initialApp_def Let_def position_at_4)
  from seek_sets_position [OF ctx, of 7 5] paused inside show ?thesis
    by blast
qed

text \<open>
  Claim C9, as the code has it: with nothing selected and a segment in the playlist, the
  main play button selects the first segment and starts playing.
\<close>

theorem play_without_selection_counterexample:
  "currentSegment exAfterFirstRun = None
    \<and> audioSegments exAfterFirstRun = [exSegmentA]
    \<and> handleMainPlayPause True exAfterFirstRun \<noteq> exAfterFirstRun
    \<and> currentSegment (handleMainPlayPause True exAfterFirstRun) = Some exSegmentA
    \<and> isPlaying (handleMainPlayPause True exAfterFirstRun)"
  by code_simp

text \<open>
  Claim C9, amended: when no segment is selected, the main play button does nothing if the
  playlist is empty, and otherwise selects the first segment of the playlist and starts
  playing; it raises in neither case.
\<close>

theorem play_without_selection:
  assumes "currentSegment s = None"
  shows "(audioSegments s = [] \<longrightarrow> handleMainPlayPause b s = s)
    \<and> (audioSegments s \<noteq> [] \<longrightarrow>
          handleMainPlayPause b s = s\<lparr>currentSegment := Some (audioSegments s ! 0), isPlaying := True\<rparr>)"
  using assms by (simp add: handleMainPlayPause_def)

theorem play_without_selection_witness:
  "handleMainPlayPause True initialApp = initialApp
    \<and> handleMainPlayPause True exAfterFirstRun
        = exAfterFirstRun\<lparr>currentSegment := Some (audioSegments exAfterFirstRun ! 0), isPlaying := True\<rparr>"
proof -
  have none1: "currentSegment initialApp = None" and empty: "audioSegments initialApp = []"
    by (simp_all add: initialApp_def)
  have none2: "currentSegment exAfterFirstRun = None"
    by code_simp
  have nonempty: "audioSegments exAfterFirstRun \<noteq> []"
    by code_simp
  from play_without_selection [OF none1, of True] empty
  have "handleMainPlayPause True initialApp = initialApp"
    by blast
  moreover from play_without_selection [OF none2, of True] nonempty
  have "handleMainPlayPause True exAfterFirstRun
      = exAfterFirstRun\<lparr>currentSegment := Some (audioSegments exAfterFirstRun ! 0), isPlaying := True\<rparr>"
    by blast
  ultimately show ?thesis
    by blast
qed

end
